theory Spec2Isabelle
  imports Complex_Main "HOL-Library.AList" "HOL-Library.Multiset"
begin

section \<open>The candidate generator service of generator_merge_service.py\<close>

text \<open>
  The model follows \<^verbatim>\<open>src/py/generator_merge_service.py\<close>. Python's \<^verbatim>\<open>float\<close> is
  idealised as \<^typ>\<open>real\<close> (no rounding, no NaN); \<^verbatim>\<open>int\<close> is \<^typ>\<open>int\<close>. The two
  \<^verbatim>\<open>print\<close> calls, which stand for the hand-over to the rankers, become values of
  type \<open>dispatch\<close> that every operation returns next to the new state. The source has
  no \<^verbatim>\<open>raise\<close> and no assertion, and every operation below is a total function.
\<close>

subsection \<open>Data\<close>

record GeneratorResult =
  item_id :: string
  rank :: int
  score :: real

text \<open>
  The fields of \<^verbatim>\<open>CandidateGeneratorService\<close>. \<^verbatim>\<open>uv_dict\<close> is a Python dict that
  \<^verbatim>\<open>OnTimeOut\<close> iterates, so its insertion order is kept: an association list with
  distinct keys, updated in place. Of \<^verbatim>\<open>already_sent\<close> only the keys are read.
\<close>

record service =
  max_num_lsr :: int
  lsr_sufficiency_threshold :: real
  max_num_esr :: int
  lsr_batch_size :: int
  uv_dict :: "(string \<times> real) list"
  num_lsr_sent :: int
  items_waiting_for_lsr :: "string list"
  already_sent :: "string \<rightharpoonup> bool"
  weights :: "int \<rightharpoonup> real \<times> real \<times> real"

datatype dispatch =
  LateStage "string list"
  | EarlyStage "(string \<times> real) list"

definition init :: "int \<Rightarrow> real \<Rightarrow> int \<Rightarrow> int \<Rightarrow> (int \<rightharpoonup> real \<times> real \<times> real) \<Rightarrow> service" where
  "init mx thr me bs ws =
     \<lparr> max_num_lsr = mx, lsr_sufficiency_threshold = thr, max_num_esr = me,
       lsr_batch_size = bs, uv_dict = [], num_lsr_sent = 0,
       items_waiting_for_lsr = [], already_sent = Map.empty, weights = ws \<rparr>"

subsection \<open>Python's dict and list operations\<close>

text \<open>\<^verbatim>\<open>d.get(k, default)\<close>.\<close>

definition dict_get :: "('k \<times> 'v) list \<Rightarrow> 'k \<Rightarrow> 'v \<Rightarrow> 'v" where
  "dict_get d k dflt = (case map_of d k of None \<Rightarrow> dflt | Some v \<Rightarrow> v)"

text \<open>\<^verbatim>\<open>d[k] = v\<close>: a present key keeps its place, a new key goes last.\<close>

definition dict_set :: "('k \<times> 'v) list \<Rightarrow> 'k \<Rightarrow> 'v \<Rightarrow> ('k \<times> 'v) list" where
  "dict_set d k v = AList.update k v d"

text \<open>
  \<^verbatim>\<open>sorted(xs, key=f, reverse=True)\<close>: CPython reverses the list, sorts it stably in
  ascending order of the key and reverses the result, so equal keys keep their order.
\<close>

definition sorted_reverse :: "('a \<Rightarrow> real) \<Rightarrow> 'a list \<Rightarrow> 'a list" where
  "sorted_reverse f xs = rev (sort_key f (rev xs))"

text \<open>\<^verbatim>\<open>xs[:n]\<close>: a negative \<open>n\<close> counts from the end.\<close>

definition slice_to :: "'a list \<Rightarrow> int \<Rightarrow> 'a list" where
  "slice_to xs n = (if 0 \<le> n then take (nat n) xs else take (length xs - nat (- n)) xs)"

subsection \<open>The scorer\<close>

definition calculate_user_value_estimate :: "service \<Rightarrow> int \<Rightarrow> int \<Rightarrow> real \<Rightarrow> real" where
  "calculate_user_value_estimate s generator_id rnk scr =
     (case (case weights s generator_id of None \<Rightarrow> (1, 1, 1) | Some w \<Rightarrow> w) of
        (w0, w1, w2) \<Rightarrow> w0 * 1 / log 2 (real_of_int (max (1 + rnk) 2)) + w1 * scr + w2)"

subsection \<open>The late stage queue\<close>

text \<open>
  The loop of \<^verbatim>\<open>send_to_late_stage_ranker\<close>: it walks the queue with the list
  \<^verbatim>\<open>items_to_send\<close> and the dict \<^verbatim>\<open>already_sent\<close> as its state.
\<close>

fun send_loop :: "string list \<Rightarrow> string list \<times> (string \<rightharpoonup> bool) \<Rightarrow> string list \<times> (string \<rightharpoonup> bool)" where
  "send_loop [] acc = acc"
| "send_loop (i # is) (items_to_send, sent) =
     (if sent i = None then send_loop is (items_to_send @ [i], sent(i \<mapsto> True))
      else send_loop is (items_to_send, sent))"

definition send_to_late_stage_ranker :: "service \<Rightarrow> dispatch list \<times> service" where
  "send_to_late_stage_ranker s =
     (case send_loop (items_waiting_for_lsr s) ([], already_sent s) of
        (items_to_send, sent) \<Rightarrow>
          ([LateStage items_to_send],
           s\<lparr> already_sent := sent,
              num_lsr_sent := num_lsr_sent s + int (length items_to_send),
              items_waiting_for_lsr := [] \<rparr>))"

definition enqueue_for_late_stage_ranker :: "service \<Rightarrow> string \<Rightarrow> dispatch list \<times> service" where
  "enqueue_for_late_stage_ranker s i =
     (if num_lsr_sent s < max_num_lsr s \<and> i \<notin> set (items_waiting_for_lsr s) then
        (let s1 = s\<lparr> items_waiting_for_lsr := items_waiting_for_lsr s @ [i] \<rparr>
         in if int (length (items_waiting_for_lsr s1)) \<ge> lsr_batch_size s1
            then send_to_late_stage_ranker s1
            else ([], s1))
      else ([], s))"

subsection \<open>Generator completion\<close>

text \<open>
  The test of lines 53 to 56, on the state after the store of line 51 and with the
  estimate of line 50.
\<close>

definition admission_test :: "service \<Rightarrow> string \<Rightarrow> real \<Rightarrow> bool" where
  "admission_test s i uv_estimate \<longleftrightarrow>
     uv_estimate > lsr_sufficiency_threshold s \<and> already_sent s i = None"

text \<open>One round of the loop of \<^verbatim>\<open>OnGeneratorCompletion\<close>.\<close>

definition process_result :: "service \<Rightarrow> int \<Rightarrow> GeneratorResult \<Rightarrow> dispatch list \<times> service" where
  "process_result s generator_id r =
     (let uv_estimate = calculate_user_value_estimate s generator_id (rank r) (score r);
          s1 = s\<lparr> uv_dict := dict_set (uv_dict s) (item_id r)
                                (max (dict_get (uv_dict s) (item_id r) 0) uv_estimate) \<rparr>
      in if admission_test s1 (item_id r) uv_estimate
         then enqueue_for_late_stage_ranker s1 (item_id r)
         else ([], s1))"

fun OnGeneratorCompletion :: "service \<Rightarrow> int \<Rightarrow> GeneratorResult list \<Rightarrow> dispatch list \<times> service" where
  "OnGeneratorCompletion s generator_id [] = ([], s)"
| "OnGeneratorCompletion s generator_id (r # results) =
     (case process_result s generator_id r of
        (out1, s1) \<Rightarrow>
          (case OnGeneratorCompletion s1 generator_id results of
             (out2, s2) \<Rightarrow> (out1 @ out2, s2)))"

subsection \<open>Timeout\<close>

definition OnTimeOut :: "service \<Rightarrow> dispatch list \<times> service" where
  "OnTimeOut s =
     (let top_K_items = sorted_reverse snd (uv_dict s);
          top_K_items = filter (\<lambda>(i, v). already_sent s i = None) top_K_items;
          top_K_items = slice_to top_K_items (max_num_esr s)
      in ([EarlyStage top_K_items], s))"

subsection \<open>Histories of calls\<close>

datatype call =
  GeneratorCompletion int "GeneratorResult list"
  | TimeOut

fun do_call :: "service \<Rightarrow> call \<Rightarrow> dispatch list \<times> service" where
  "do_call s (GeneratorCompletion generator_id results) = OnGeneratorCompletion s generator_id results"
| "do_call s TimeOut = OnTimeOut s"

fun run :: "service \<Rightarrow> call list \<Rightarrow> dispatch list \<times> service" where
  "run s [] = ([], s)"
| "run s (c # cs) =
     (case do_call s c of
        (out1, s1) \<Rightarrow> (case run s1 cs of (out2, s2) \<Rightarrow> (out1 @ out2, s2)))"

subsection \<open>Notions used to state the properties\<close>

text \<open>A list without its repetitions, every element at its first place.\<close>

fun first_occurrences :: "'a list \<Rightarrow> 'a list" where
  "first_occurrences [] = []"
| "first_occurrences (x # xs) = x # filter (\<lambda>y. y \<noteq> x) (first_occurrences xs)"

text \<open>Every item handed to the late stage ranker, in the order of the hand-over.\<close>

fun late_stage_items :: "dispatch list \<Rightarrow> string list" where
  "late_stage_items [] = []"
| "late_stage_items (LateStage b # out) = b @ late_stage_items out"
| "late_stage_items (EarlyStage b # out) = late_stage_items out"

text \<open>
  What one operation does to the late stage ranker: the items it hands over are pairwise
  different, none was marked sent before, all are marked sent afterwards, and no mark is
  ever removed.
\<close>

definition fresh_dispatch :: "service \<Rightarrow> dispatch list \<times> service \<Rightarrow> bool" where
  "fresh_dispatch s r \<longleftrightarrow>
     distinct (late_stage_items (fst r)) \<and>
     (\<forall>i \<in> set (late_stage_items (fst r)). already_sent s i = None \<and> already_sent (snd r) i \<noteq> None) \<and>
     (\<forall>i. already_sent s i \<noteq> None \<longrightarrow> already_sent (snd r) i \<noteq> None)"

text \<open>
  The estimates that the scorer computes for item \<open>i\<close> during a history of calls, in
  the order of their computation. The scorer reads the state only for the weights,
  which no operation changes.
\<close>

fun estimates_in :: "service \<Rightarrow> string \<Rightarrow> int \<Rightarrow> GeneratorResult list \<Rightarrow> real list" where
  "estimates_in s i g [] = []"
| "estimates_in s i g (r # rs) =
     (if item_id r = i then calculate_user_value_estimate s g (rank r) (score r) # estimates_in s i g rs
      else estimates_in s i g rs)"

fun estimates :: "service \<Rightarrow> string \<Rightarrow> call list \<Rightarrow> real list" where
  "estimates s i [] = []"
| "estimates s i (GeneratorCompletion g rs # cs) = estimates_in s i g rs @ estimates s i cs"
| "estimates s i (TimeOut # cs) = estimates s i cs"

text \<open>\<^verbatim>\<open>Get(item)\<close>: the stored estimate of an item, if there is one.\<close>

definition stored :: "service \<Rightarrow> string \<Rightarrow> real option" where
  "stored s i = map_of (uv_dict s) i"

text \<open>What line 51 merges the new estimate with: the stored value, or 0 for a new item.\<close>

definition base :: "service \<Rightarrow> string \<Rightarrow> real" where
  "base s i = (case stored s i of None \<Rightarrow> 0 | Some v \<Rightarrow> v)"

definition values_nonneg :: "service \<Rightarrow> bool" where
  "values_nonneg s \<longleftrightarrow> (\<forall>v \<in> snd ` set (uv_dict s). 0 \<le> v)"

text \<open>
  The queue holds no item twice and no item that is marked sent. Every state that the
  service reaches has this property.
\<close>

definition queue_fresh :: "service \<Rightarrow> bool" where
  "queue_fresh s \<longleftrightarrow>
     distinct (items_waiting_for_lsr s) \<and> (\<forall>x \<in> set (items_waiting_for_lsr s). already_sent s x = None)"

text \<open>
  The selection of the timeout in the words of the specification: the entries of the
  estimate store sorted by estimate in descending order (a stable sort, so that equal
  estimates stay in the order of the store), without the entries of sent items, cut to
  the first \<^verbatim>\<open>max_num_esr\<close>.
\<close>

definition spec_timeout_selection :: "service \<Rightarrow> (string \<times> real) list" where
  "spec_timeout_selection s =
     take (nat (max_num_esr s))
       (filter (\<lambda>(i, v). already_sent s i = None)
          (sort_key (\<lambda>(i, v). - v) (uv_dict s)))"

text \<open>The definitions that a computation on a concrete input unfolds.\<close>

lemmas eval_defs = init_def process_result_def calculate_user_value_estimate_def dict_set_def
  dict_get_def admission_test_def enqueue_for_late_stage_ranker_def send_to_late_stage_ranker_def
  OnTimeOut_def sorted_reverse_def slice_to_def stored_def Let_def

section \<open>The flush loop\<close>

lemma set_first_occurrences: "set (first_occurrences xs) = set xs"
  by (induction xs) auto

lemma distinct_first_occurrences: "distinct (first_occurrences xs)"
  by (induction xs) auto

lemma first_occurrences_distinct: "distinct xs \<Longrightarrow> first_occurrences xs = xs"
  by (induction xs) (auto simp: filter_id_conv)

lemma send_loop_snd:
  "snd (send_loop q (acc, sent)) = (\<lambda>x. if x \<in> set q \<and> sent x = None then Some True else sent x)"
proof (induction q arbitrary: acc sent)
  case Nil
  then show ?case by simp
next
  case (Cons i q)
  then show ?case by (auto simp: fun_eq_iff)
qed

lemma filter_unsent_upd:
  "filter (\<lambda>x. (sent(i \<mapsto> b)) x = None) xs = filter (\<lambda>x. sent x = None) (filter (\<lambda>y. y \<noteq> i) xs)"
  by (induction xs) auto

lemma filter_unsent_neq:
  "sent i \<noteq> None \<Longrightarrow> filter (\<lambda>x. sent x = None) (filter (\<lambda>y. y \<noteq> i) xs) = filter (\<lambda>x. sent x = None) xs"
  by (induction xs) auto

lemma send_loop_fst:
  "fst (send_loop q (acc, sent)) = acc @ filter (\<lambda>x. sent x = None) (first_occurrences q)"
proof (induction q arbitrary: acc sent)
  case Nil
  then show ?case by simp
next
  case (Cons i q)
  show ?case
  proof (cases "sent i")
    case None
    then have "fst (send_loop (i # q) (acc, sent)) = fst (send_loop q (acc @ [i], sent(i \<mapsto> True)))"
      by simp
    also have "\<dots> = (acc @ [i]) @ filter (\<lambda>x. (sent(i \<mapsto> True)) x = None) (first_occurrences q)"
      by (rule Cons.IH)
    also have "\<dots> = acc @ i # filter (\<lambda>x. sent x = None) (filter (\<lambda>y. y \<noteq> i) (first_occurrences q))"
      by (simp only: filter_unsent_upd append_assoc append_Cons append_Nil)
    also have "\<dots> = acc @ filter (\<lambda>x. sent x = None) (first_occurrences (i # q))"
      using None by (simp del: filter_filter)
    finally show ?thesis .
  next
    case (Some b)
    then have False: "sent i \<noteq> None"
      by simp
    from Some have "fst (send_loop (i # q) (acc, sent)) = fst (send_loop q (acc, sent))"
      by simp
    also have "\<dots> = acc @ filter (\<lambda>x. sent x = None) (first_occurrences q)"
      by (rule Cons.IH)
    also have "\<dots> = acc @ filter (\<lambda>x. sent x = None) (filter (\<lambda>y. y \<noteq> i) (first_occurrences q))"
      using filter_unsent_neq [of sent i "first_occurrences q", OF False] by simp
    also have "\<dots> = acc @ filter (\<lambda>x. sent x = None) (first_occurrences (i # q))"
      using Some by (simp del: filter_filter)
    finally show ?thesis .
  qed
qed

lemma send_loop_eq:
  "send_loop q (acc, sent) =
     (acc @ filter (\<lambda>x. sent x = None) (first_occurrences q),
      (\<lambda>x. if x \<in> set q \<and> sent x = None then Some True else sent x))"
  using send_loop_fst [of q acc sent] send_loop_snd [of q acc sent]
  by (cases "send_loop q (acc, sent)") simp

section \<open>No item reaches the late stage ranker twice\<close>

lemma late_stage_items_append: "late_stage_items (a @ b) = late_stage_items a @ late_stage_items b"
  by (induction a rule: late_stage_items.induct) simp_all

lemma send_to_late_stage_ranker_eq:
  "send_to_late_stage_ranker s =
     ([LateStage (filter (\<lambda>x. already_sent s x = None) (first_occurrences (items_waiting_for_lsr s)))],
      s\<lparr> already_sent := (\<lambda>x. if x \<in> set (items_waiting_for_lsr s) \<and> already_sent s x = None
                               then Some True else already_sent s x),
         num_lsr_sent := num_lsr_sent s
            + int (length (filter (\<lambda>x. already_sent s x = None) (first_occurrences (items_waiting_for_lsr s)))),
         items_waiting_for_lsr := [] \<rparr>)"
  by (simp add: send_to_late_stage_ranker_def send_loop_eq)

lemma fresh_dispatch_nothing: "fresh_dispatch s ([], s)"
  by (simp add: fresh_dispatch_def)

lemma fresh_dispatch_same_sent:
  "already_sent s' = already_sent s \<Longrightarrow> late_stage_items out = [] \<Longrightarrow> fresh_dispatch s (out, s')"
  by (simp add: fresh_dispatch_def)

lemma fresh_dispatch_pre:
  "already_sent s0 = already_sent s \<Longrightarrow> fresh_dispatch s r \<Longrightarrow> fresh_dispatch s0 r"
  by (simp add: fresh_dispatch_def)

lemma fresh_dispatch_seq:
  assumes "fresh_dispatch s (out1, s1)" and "fresh_dispatch s1 (out2, s2)"
  shows "fresh_dispatch s (out1 @ out2, s2)"
  using assms unfolding fresh_dispatch_def fst_conv snd_conv late_stage_items_append
    distinct_append set_append
  by blast

lemma fresh_dispatch_send: "fresh_dispatch s (send_to_late_stage_ranker s)"
  by (simp add: send_to_late_stage_ranker_eq fresh_dispatch_def distinct_first_occurrences
      set_first_occurrences)

lemma fresh_dispatch_enqueue: "fresh_dispatch s (enqueue_for_late_stage_ranker s i)"
proof -
  let ?s1 = "s\<lparr> items_waiting_for_lsr := items_waiting_for_lsr s @ [i] \<rparr>"
  have "fresh_dispatch s (send_to_late_stage_ranker ?s1)"
    by (rule fresh_dispatch_pre [OF _ fresh_dispatch_send]) simp
  moreover have "fresh_dispatch s ([], ?s1)"
    by (rule fresh_dispatch_same_sent) simp_all
  ultimately show ?thesis
    by (simp add: enqueue_for_late_stage_ranker_def Let_def fresh_dispatch_nothing)
qed

lemma fresh_dispatch_process: "fresh_dispatch s (process_result s g r)"
proof -
  let ?s1 = "s\<lparr> uv_dict := dict_set (uv_dict s) (item_id r)
       (max (dict_get (uv_dict s) (item_id r) 0) (calculate_user_value_estimate s g (rank r) (score r))) \<rparr>"
  have "fresh_dispatch s (enqueue_for_late_stage_ranker ?s1 (item_id r))"
    by (rule fresh_dispatch_pre [OF _ fresh_dispatch_enqueue]) simp
  moreover have "fresh_dispatch s ([], ?s1)"
    by (rule fresh_dispatch_same_sent) simp_all
  ultimately show ?thesis
    by (simp add: process_result_def Let_def)
qed

lemma fresh_dispatch_OnGeneratorCompletion: "fresh_dispatch s (OnGeneratorCompletion s g rs)"
proof (induction rs arbitrary: s)
  case Nil
  show ?case by (simp add: fresh_dispatch_nothing)
next
  case (Cons r rs)
  obtain out1 s1 where p: "process_result s g r = (out1, s1)"
    by (cases "process_result s g r")
  obtain out2 s2 where q: "OnGeneratorCompletion s1 g rs = (out2, s2)"
    by (cases "OnGeneratorCompletion s1 g rs")
  have "fresh_dispatch s (out1, s1)"
    using fresh_dispatch_process [of s g r] p by simp
  moreover have "fresh_dispatch s1 (out2, s2)"
    using Cons.IH [of s1] q by simp
  ultimately show ?case
    using p q by (simp add: fresh_dispatch_seq)
qed

lemma fresh_dispatch_OnTimeOut: "fresh_dispatch s (OnTimeOut s)"
  by (simp add: OnTimeOut_def Let_def fresh_dispatch_def)

lemma fresh_dispatch_do_call: "fresh_dispatch s (do_call s c)"
  by (cases c) (simp_all add: fresh_dispatch_OnGeneratorCompletion fresh_dispatch_OnTimeOut)

lemma fresh_dispatch_run: "fresh_dispatch s (run s cs)"
proof (induction cs arbitrary: s)
  case Nil
  show ?case by (simp add: fresh_dispatch_nothing)
next
  case (Cons c cs)
  obtain out1 s1 where p: "do_call s c = (out1, s1)"
    by (cases "do_call s c")
  obtain out2 s2 where q: "run s1 cs = (out2, s2)"
    by (cases "run s1 cs")
  have "fresh_dispatch s (out1, s1)"
    using fresh_dispatch_do_call [of s c] p by simp
  moreover have "fresh_dispatch s1 (out2, s2)"
    using Cons.IH [of s1] q by simp
  ultimately show ?case
    using p q by (simp add: fresh_dispatch_seq)
qed


text \<open>
  C7. Whatever the state the service starts from (in particular the one the constructor
  builds) and whatever calls of \<^verbatim>\<open>OnGeneratorCompletion\<close> and \<^verbatim>\<open>OnTimeOut\<close>
  follow, the batches handed to the late stage ranker, laid end to end, hold no item
  twice: no item is in two batches, and none is twice in one.
\<close>

theorem late_stage_at_most_once:
  "distinct (late_stage_items (fst (run s cs)))"
  using fresh_dispatch_run [of s cs] by (simp add: fresh_dispatch_def)

section \<open>The estimate store\<close>

subsection \<open>What the operations leave alone\<close>

lemma calc_cong: "weights s' = weights s \<Longrightarrow> calculate_user_value_estimate s' = calculate_user_value_estimate s"
  by (simp add: calculate_user_value_estimate_def fun_eq_iff)

lemma send_frame:
  "weights (snd (send_to_late_stage_ranker s)) = weights s"
  "uv_dict (snd (send_to_late_stage_ranker s)) = uv_dict s"
  by (simp_all add: send_to_late_stage_ranker_eq)

lemma enqueue_frame:
  "weights (snd (enqueue_for_late_stage_ranker s i)) = weights s"
  "uv_dict (snd (enqueue_for_late_stage_ranker s i)) = uv_dict s"
  by (simp_all add: enqueue_for_late_stage_ranker_def Let_def send_frame)

lemma process_weights: "weights (snd (process_result s g r)) = weights s"
  by (simp add: process_result_def Let_def enqueue_frame)

lemma process_uv_dict:
  "uv_dict (snd (process_result s g r)) =
     dict_set (uv_dict s) (item_id r)
       (max (dict_get (uv_dict s) (item_id r) 0) (calculate_user_value_estimate s g (rank r) (score r)))"
  by (simp add: process_result_def Let_def enqueue_frame)

lemma OnGeneratorCompletion_Cons_snd:
  "snd (OnGeneratorCompletion s g (r # rs)) = snd (OnGeneratorCompletion (snd (process_result s g r)) g rs)"
  by (simp add: case_prod_beta)

lemma OnGeneratorCompletion_Cons_fst:
  "fst (OnGeneratorCompletion s g (r # rs)) =
     fst (process_result s g r) @ fst (OnGeneratorCompletion (snd (process_result s g r)) g rs)"
  by (simp add: case_prod_beta)

lemma run_Cons_snd: "snd (run s (c # cs)) = snd (run (snd (do_call s c)) cs)"
  by (simp add: case_prod_beta)

lemma run_Cons_fst: "fst (run s (c # cs)) = fst (do_call s c) @ fst (run (snd (do_call s c)) cs)"
  by (simp add: case_prod_beta)

lemma OnGeneratorCompletion_weights: "weights (snd (OnGeneratorCompletion s g rs)) = weights s"
proof (induction rs arbitrary: s)
  case Nil
  show ?case by simp
next
  case (Cons r rs)
  show ?case
    using Cons.IH [of "snd (process_result s g r)"] process_weights [of s g r]
    by (simp only: OnGeneratorCompletion_Cons_snd)
qed

lemma OnTimeOut_state: "snd (OnTimeOut s) = s"
  by (simp add: OnTimeOut_def Let_def)

lemma do_call_weights: "weights (snd (do_call s c)) = weights s"
  by (cases c) (simp_all add: OnGeneratorCompletion_weights OnTimeOut_state)

lemma estimates_in_cong:
  assumes "weights s' = weights s"
  shows "estimates_in s' i g rs = estimates_in s i g rs"
  by (induction rs) (simp_all add: calc_cong [OF assms])

lemma estimates_cong:
  assumes "weights s' = weights s"
  shows "estimates s' i cs = estimates s i cs"
proof (induction cs)
  case Nil
  show ?case by simp
next
  case (Cons c cs)
  then show ?case
    by (cases c) (simp_all add: estimates_in_cong [OF assms])
qed

subsection \<open>The stored value after a history\<close>

lemma stored_process:
  "stored (snd (process_result s g r)) i =
     (if item_id r = i
      then Some (max (case stored s i of None \<Rightarrow> 0 | Some v \<Rightarrow> v)
                     (calculate_user_value_estimate s g (rank r) (score r)))
      else stored s i)"
  by (simp add: stored_def process_uv_dict dict_set_def dict_get_def update_conv')

lemma stored_process_fold:
  "stored (snd (process_result s g r)) i =
     (if estimates_in s i g [r] = [] then stored s i
      else Some (fold max (estimates_in s i g [r]) (base s i)))"
  by (simp add: stored_process base_def max.commute)

lemma fold_max_step:
  "(if ds = [] then (if es = [] then x else Some (fold max es (case x of None \<Rightarrow> 0 | Some v \<Rightarrow> v)))
    else Some (fold max ds (case (if es = [] then x else Some (fold max es (case x of None \<Rightarrow> 0 | Some v \<Rightarrow> v))) of None \<Rightarrow> (0::real) | Some v \<Rightarrow> v)))
   = (if es @ ds = [] then x else Some (fold max (es @ ds) (case x of None \<Rightarrow> 0 | Some v \<Rightarrow> v)))"
  by simp

lemma estimates_in_Cons: "estimates_in s i g (r # rs) = estimates_in s i g [r] @ estimates_in s i g rs"
  by simp

lemma stored_OnGeneratorCompletion:
  "stored (snd (OnGeneratorCompletion s g rs)) i =
     (if estimates_in s i g rs = [] then stored s i
      else Some (fold max (estimates_in s i g rs) (base s i)))"
proof (induction rs arbitrary: s)
  case Nil
  show ?case by simp
next
  case (Cons r rs)
  let ?s1 = "snd (process_result s g r)"
  have w: "weights ?s1 = weights s" by (rule process_weights)
  have e: "estimates_in ?s1 i g rs = estimates_in s i g rs"
    by (rule estimates_in_cong [OF w])
  show ?case
    unfolding OnGeneratorCompletion_Cons_snd Cons.IH [of ?s1] e base_def stored_process_fold
      estimates_in_Cons [of s i g r rs]
    by (rule fold_max_step)
qed

lemma stored_do_call:
  "stored (snd (do_call s c)) i =
     (if estimates s i [c] = [] then stored s i
      else Some (fold max (estimates s i [c]) (base s i)))"
  by (cases c) (simp_all add: stored_OnGeneratorCompletion OnTimeOut_state)

lemma estimates_Cons: "estimates s i (c # cs) = estimates s i [c] @ estimates s i cs"
  by (cases c) simp_all

lemma stored_run:
  "stored (snd (run s cs)) i =
     (if estimates s i cs = [] then stored s i
      else Some (fold max (estimates s i cs) (base s i)))"
proof (induction cs arbitrary: s)
  case Nil
  show ?case by simp
next
  case (Cons c cs)
  let ?s1 = "snd (do_call s c)"
  have e: "estimates ?s1 i cs = estimates s i cs"
    by (rule estimates_cong) (rule do_call_weights)
  show ?case
    unfolding run_Cons_snd Cons.IH [of ?s1] e base_def stored_do_call estimates_Cons [of s i c cs]
    by (rule fold_max_step)
qed

lemma fold_max_Max: "fold max es (a::real) = Max (insert a (set es))"
  using Max.set_eq_fold [of a es] by simp

lemma fold_max_ge: "(a::real) \<le> fold max es a"
  by (simp add: fold_max_Max)

lemma stored_init: "stored (init mx thr me bs ws) i = None"
  by (simp add: stored_def init_def)

lemma Max_all_negative:
  assumes "es \<noteq> []" and "\<forall>e \<in> set es. e < (0::real)"
  shows "Max (insert 0 (set es)) = 0"
proof (rule Max_eqI)
  show "finite (insert 0 (set es))" by simp
  show "y \<le> 0" if "y \<in> insert 0 (set es)" for y
    using that assms(2) by auto
  show "0 \<in> insert 0 (set es)" by simp
qed

text \<open>
  C1 reads: the stored value of an item is the maximum of every estimate computed for
  it, it never decreases, and an item first sighted with estimate \<open>e\<close> has stored
  value \<open>e\<close>. Line 51 merges the first estimate with the default 0 of
  \<^verbatim>\<open>uv_dict.get(item_id, 0)\<close>, so the first and the last part fail for an item
  whose estimates are all negative: one result with the neutral weights, rank 1 and
  score -5 has estimate -3 and stored value 0.
\<close>

theorem stored_is_max_counterexample:
  "estimates (init 10 (11/10) 5 3 Map.empty) ''x''
      [GeneratorCompletion 0 [\<lparr>item_id = ''x'', rank = 1, score = - 5\<rparr>]] = [- 3] \<and>
   stored (snd (run (init 10 (11/10) 5 3 Map.empty)
      [GeneratorCompletion 0 [\<lparr>item_id = ''x'', rank = 1, score = - 5\<rparr>]])) ''x'' = Some 0"
  by (simp add: eval_defs)

text \<open>
  C1, as amended. After any history of calls on a new service, an item with no
  estimate has no entry, and the entry of any other item is the maximum of 0 and every
  estimate computed for it; from any state, the entry of an item never decreases; and an
  item first sighted with estimate \<open>e\<close> has stored value \<open>max 0 e\<close>.
\<close>

theorem stored_is_max_with_zero:
  "stored (snd (run (init mx thr me bs ws) cs)) i =
     (if estimates (init mx thr me bs ws) i cs = [] then None
      else Some (Max (insert 0 (set (estimates (init mx thr me bs ws) i cs))))) \<and>
   (stored s i = Some v \<longrightarrow> (\<exists>v'. stored (snd (run s cs)) i = Some v' \<and> v \<le> v')) \<and>
   (stored s i = None \<and> item_id r = i \<longrightarrow>
      stored (snd (process_result s g r)) i
        = Some (max 0 (calculate_user_value_estimate s g (rank r) (score r))))"
proof (intro conjI impI)
  show "stored (snd (run (init mx thr me bs ws) cs)) i =
     (if estimates (init mx thr me bs ws) i cs = [] then None
      else Some (Max (insert 0 (set (estimates (init mx thr me bs ws) i cs)))))"
    by (simp add: stored_run base_def stored_init fold_max_Max)
  show "\<exists>v'. stored (snd (run s cs)) i = Some v' \<and> v \<le> v'" if "stored s i = Some v"
    using that fold_max_ge [of v "estimates s i cs"] by (simp add: stored_run base_def)
  show "stored (snd (process_result s g r)) i
        = Some (max 0 (calculate_user_value_estimate s g (rank r) (score r)))"
    if "stored s i = None \<and> item_id r = i"
    using that by (simp add: stored_process)
qed

theorem stored_is_max_with_zero_witness:
  "stored (snd (run (init 10 (11/10) 5 3 Map.empty)
      [GeneratorCompletion 0 [\<lparr>item_id = ''x'', rank = 1, score = 2\<rparr>],
       TimeOut,
       GeneratorCompletion 0 [\<lparr>item_id = ''x'', rank = 1, score = - 5\<rparr>]])) ''x'' = Some 4 \<and>
   stored ((init 10 (11/10) 5 3 Map.empty)\<lparr>uv_dict := [(''x'', 4)]\<rparr>) ''x'' = Some 4 \<and>
   (\<exists>v'. stored (snd (run ((init 10 (11/10) 5 3 Map.empty)\<lparr>uv_dict := [(''x'', 4)]\<rparr>)
      [GeneratorCompletion 0 [\<lparr>item_id = ''x'', rank = 1, score = 2\<rparr>],
       TimeOut,
       GeneratorCompletion 0 [\<lparr>item_id = ''x'', rank = 1, score = - 5\<rparr>]])) ''x'' = Some v' \<and> 4 \<le> v') \<and>
   stored ((init 10 (11/10) 5 3 Map.empty)\<lparr>uv_dict := [(''x'', 4)]\<rparr>) ''y'' = None \<and>
   stored (snd (process_result ((init 10 (11/10) 5 3 Map.empty)\<lparr>uv_dict := [(''x'', 4)]\<rparr>) 0
      \<lparr>item_id = ''y'', rank = 1, score = - 5\<rparr>)) ''y'' = Some 0"
  using stored_is_max_with_zero [where mx = 10 and thr = "11/10" and me = 5 and bs = 3
      and ws = Map.empty and i = "''x''" and v = 4
      and s = "(init 10 (11/10) 5 3 Map.empty)\<lparr>uv_dict := [(''x'', 4)]\<rparr>"
      and cs = "[GeneratorCompletion 0 [\<lparr>item_id = ''x'', rank = 1, score = 2\<rparr>],
       TimeOut,
       GeneratorCompletion 0 [\<lparr>item_id = ''x'', rank = 1, score = - 5\<rparr>]]"]
    stored_is_max_with_zero [where i = "''y''" and g = 0
      and s = "(init 10 (11/10) 5 3 Map.empty)\<lparr>uv_dict := [(''x'', 4)]\<rparr>"
      and r = "\<lparr>item_id = ''y'', rank = 1, score = - 5\<rparr>"]
  by (simp add: eval_defs)

subsection \<open>Stored values are never negative\<close>

lemma set_update_cases: "p \<in> set (AList.update k v d) \<Longrightarrow> p = (k, v) \<or> p \<in> set d"
  by (induction d) (auto split: if_splits)

lemma dict_get_nonneg: "\<forall>v \<in> snd ` set d. (0::real) \<le> v \<Longrightarrow> 0 \<le> dict_get d k 0"
  by (auto simp: dict_get_def split: option.splits dest!: map_of_SomeD)

lemma values_nonneg_process: "values_nonneg s \<Longrightarrow> values_nonneg (snd (process_result s g r))"
  unfolding values_nonneg_def process_uv_dict dict_set_def
  using dict_get_nonneg [of "uv_dict s" "item_id r"]
  by (auto dest!: set_update_cases)

lemma values_nonneg_OnGeneratorCompletion:
  "values_nonneg s \<Longrightarrow> values_nonneg (snd (OnGeneratorCompletion s g rs))"
proof (induction rs arbitrary: s)
  case Nil
  then show ?case by simp
next
  case (Cons r rs)
  then show ?case
    by (simp only: OnGeneratorCompletion_Cons_snd values_nonneg_process)
qed

lemma values_nonneg_run: "values_nonneg s \<Longrightarrow> values_nonneg (snd (run s cs))"
proof (induction cs arbitrary: s)
  case Nil
  then show ?case by simp
next
  case (Cons c cs)
  have "values_nonneg (snd (do_call s c))"
    using Cons.prems by (cases c) (simp_all add: values_nonneg_OnGeneratorCompletion OnTimeOut_state)
  then show ?case
    by (simp only: run_Cons_snd Cons.IH)
qed

lemma values_nonneg_init: "values_nonneg (init mx thr me bs ws)"
  by (simp add: values_nonneg_def init_def)

text \<open>
  C10. After any history of calls on a new service, every value in the estimate store
  is at least 0; and an item for which at least one estimate was computed, all of them
  negative, has stored value 0 and not its greatest estimate.
\<close>

theorem stored_values_nonneg:
  "(\<forall>v \<in> snd ` set (uv_dict (snd (run (init mx thr me bs ws) cs))). 0 \<le> v) \<and>
   (estimates (init mx thr me bs ws) i cs \<noteq> [] \<and>
    (\<forall>e \<in> set (estimates (init mx thr me bs ws) i cs). e < 0) \<longrightarrow>
      stored (snd (run (init mx thr me bs ws) cs)) i = Some 0)"
proof
  show "\<forall>v \<in> snd ` set (uv_dict (snd (run (init mx thr me bs ws) cs))). 0 \<le> v"
    using values_nonneg_run [OF values_nonneg_init, of mx thr me bs ws cs]
    by (simp only: values_nonneg_def)
  show "estimates (init mx thr me bs ws) i cs \<noteq> [] \<and>
    (\<forall>e \<in> set (estimates (init mx thr me bs ws) i cs). e < 0) \<longrightarrow>
      stored (snd (run (init mx thr me bs ws) cs)) i = Some 0"
    by (simp add: stored_run base_def stored_init fold_max_Max Max_all_negative)
qed

theorem stored_values_nonneg_witness:
  "snd ` set (uv_dict (snd (run (init 10 (11/10) 5 3 Map.empty)
      [GeneratorCompletion 0 [\<lparr>item_id = ''x'', rank = 1, score = - 5\<rparr>,
                              \<lparr>item_id = ''y'', rank = 1, score = 2\<rparr>],
       GeneratorCompletion 0 [\<lparr>item_id = ''x'', rank = 0, score = - 7\<rparr>]]))) = {0, 4} \<and>
   estimates (init 10 (11/10) 5 3 Map.empty) ''x''
      [GeneratorCompletion 0 [\<lparr>item_id = ''x'', rank = 1, score = - 5\<rparr>,
                              \<lparr>item_id = ''y'', rank = 1, score = 2\<rparr>],
       GeneratorCompletion 0 [\<lparr>item_id = ''x'', rank = 0, score = - 7\<rparr>]] = [- 3, - 5] \<and>
   stored (snd (run (init 10 (11/10) 5 3 Map.empty)
      [GeneratorCompletion 0 [\<lparr>item_id = ''x'', rank = 1, score = - 5\<rparr>,
                              \<lparr>item_id = ''y'', rank = 1, score = 2\<rparr>],
       GeneratorCompletion 0 [\<lparr>item_id = ''x'', rank = 0, score = - 7\<rparr>]])) ''x'' = Some 0"
  using stored_values_nonneg [of 10 "11/10" 5 3 Map.empty
      "[GeneratorCompletion 0 [\<lparr>item_id = ''x'', rank = 1, score = - 5\<rparr>,
                              \<lparr>item_id = ''y'', rank = 1, score = 2\<rparr>],
       GeneratorCompletion 0 [\<lparr>item_id = ''x'', rank = 0, score = - 7\<rparr>]]" "''x''"]
  by (simp add: eval_defs)

subsection \<open>A result delivered twice\<close>

lemma process_twice_uv_dict:
  "uv_dict (snd (process_result (snd (process_result s g r)) g r)) = uv_dict (snd (process_result s g r))"
proof -
  let ?s1 = "snd (process_result s g r)"
  let ?e = "calculate_user_value_estimate s g (rank r) (score r)"
  let ?m = "max (dict_get (uv_dict s) (item_id r) 0) ?e"
  have c: "calculate_user_value_estimate ?s1 = calculate_user_value_estimate s"
    by (rule calc_cong) (rule process_weights)
  have d: "uv_dict ?s1 = AList.update (item_id r) ?m (uv_dict s)"
    by (simp add: process_uv_dict dict_set_def)
  have g: "dict_get (uv_dict ?s1) (item_id r) 0 = ?m"
    by (simp add: d dict_get_def update_conv')
  show ?thesis
    unfolding process_uv_dict [of ?s1] c g
    by (simp add: d dict_set_def)
qed

text \<open>
  C9. From any state, processing the same result of the same generator twice, in one
  call or in two calls one after the other, leaves the estimate store exactly as
  processing it once does: the second delivery changes no entry and no position.
\<close>

theorem repeated_result_idempotent:
  "uv_dict (snd (OnGeneratorCompletion s g [r, r])) = uv_dict (snd (OnGeneratorCompletion s g [r])) \<and>
   uv_dict (snd (OnGeneratorCompletion (snd (OnGeneratorCompletion s g [r])) g [r]))
     = uv_dict (snd (OnGeneratorCompletion s g [r]))"
  by (simp add: OnGeneratorCompletion_Cons_snd process_twice_uv_dict del: OnGeneratorCompletion.simps(2))

section \<open>Timeout\<close>

text \<open>
  C8. \<^verbatim>\<open>OnTimeOut\<close> returns the state it was given: the estimate store, the queue,
  the sent-set and the counter are unchanged. It dispatches one list to the early stage
  ranker, and no item of that list is marked sent, before or after. So when such an item
  comes back from a generator with an estimate above the threshold, line 57 hands it to
  \<^verbatim>\<open>enqueue_for_late_stage_ranker\<close> as it would have done without the timeout.
\<close>

theorem timeout_changes_nothing:
  "snd (OnTimeOut s) = s \<and>
   (\<exists>items. fst (OnTimeOut s) = [EarlyStage items] \<and>
      (\<forall>i \<in> fst ` set items. already_sent (snd (OnTimeOut s)) i = None \<and>
         (\<forall>g r. item_id r = i \<and>
                calculate_user_value_estimate s g (rank r) (score r) > lsr_sufficiency_threshold s \<longrightarrow>
            process_result (snd (OnTimeOut s)) g r =
              enqueue_for_late_stage_ranker
                (s\<lparr> uv_dict := dict_set (uv_dict s) i
                       (max (dict_get (uv_dict s) i 0)
                            (calculate_user_value_estimate s g (rank r) (score r))) \<rparr>) i)))"
proof -
  let ?items = "slice_to (filter (\<lambda>(i, v). already_sent s i = None) (sorted_reverse snd (uv_dict s))) (max_num_esr s)"
  have st: "snd (OnTimeOut s) = s"
    by (rule OnTimeOut_state)
  have out: "fst (OnTimeOut s) = [EarlyStage ?items]"
    by (simp add: OnTimeOut_def Let_def)
  have "set ?items \<subseteq> set (filter (\<lambda>(i, v). already_sent s i = None) (sorted_reverse snd (uv_dict s)))"
    by (auto simp: slice_to_def dest: in_set_takeD)
  then have unsent: "already_sent s i = None" if "i \<in> fst ` set ?items" for i
    using that by auto
  have adm: "process_result s g r =
      enqueue_for_late_stage_ranker
        (s\<lparr> uv_dict := dict_set (uv_dict s) i
               (max (dict_get (uv_dict s) i 0)
                    (calculate_user_value_estimate s g (rank r) (score r))) \<rparr>) i"
    if "i \<in> fst ` set ?items"
      and "item_id r = i \<and> calculate_user_value_estimate s g (rank r) (score r) > lsr_sufficiency_threshold s"
    for i g r
    using that(2) unsent [OF that(1)] by (simp add: process_result_def Let_def admission_test_def)
  have "\<forall>i \<in> fst ` set ?items. already_sent s i = None \<and>
         (\<forall>g r. item_id r = i \<and>
                calculate_user_value_estimate s g (rank r) (score r) > lsr_sufficiency_threshold s \<longrightarrow>
            process_result s g r =
              enqueue_for_late_stage_ranker
                (s\<lparr> uv_dict := dict_set (uv_dict s) i
                       (max (dict_get (uv_dict s) i 0)
                            (calculate_user_value_estimate s g (rank r) (score r))) \<rparr>) i)"
    using unsent adm by (intro ballI conjI allI impI)
  with out have "\<exists>items. fst (OnTimeOut s) = [EarlyStage items] \<and>
      (\<forall>i \<in> fst ` set items. already_sent s i = None \<and>
         (\<forall>g r. item_id r = i \<and>
                calculate_user_value_estimate s g (rank r) (score r) > lsr_sufficiency_threshold s \<longrightarrow>
            process_result s g r =
              enqueue_for_late_stage_ranker
                (s\<lparr> uv_dict := dict_set (uv_dict s) i
                       (max (dict_get (uv_dict s) i 0)
                            (calculate_user_value_estimate s g (rank r) (score r))) \<rparr>) i))"
    by (intro exI [of _ ?items] conjI)
  then show ?thesis
    unfolding st by (intro conjI refl)
qed

theorem timeout_changes_nothing_witness:
  "snd (OnTimeOut (snd (run (init 10 10 2 3 Map.empty)
      [GeneratorCompletion 0
        [\<lparr>item_id = ''a'', rank = 1, score = 3\<rparr>, \<lparr>item_id = ''b'', rank = 1, score = 1\<rparr>,
         \<lparr>item_id = ''c'', rank = 1, score = 7\<rparr>, \<lparr>item_id = ''d'', rank = 1, score = - 1\<rparr>]])))
     = snd (run (init 10 10 2 3 Map.empty)
      [GeneratorCompletion 0
        [\<lparr>item_id = ''a'', rank = 1, score = 3\<rparr>, \<lparr>item_id = ''b'', rank = 1, score = 1\<rparr>,
         \<lparr>item_id = ''c'', rank = 1, score = 7\<rparr>, \<lparr>item_id = ''d'', rank = 1, score = - 1\<rparr>]]) \<and>
   run (init 10 10 2 3 Map.empty)
      [GeneratorCompletion 0
        [\<lparr>item_id = ''a'', rank = 1, score = 3\<rparr>, \<lparr>item_id = ''b'', rank = 1, score = 1\<rparr>,
         \<lparr>item_id = ''c'', rank = 1, score = 7\<rparr>, \<lparr>item_id = ''d'', rank = 1, score = - 1\<rparr>],
       TimeOut,
       GeneratorCompletion 0 [\<lparr>item_id = ''c'', rank = 1, score = 10\<rparr>]]
     = ([EarlyStage [(''c'', 9), (''a'', 5)]],
        (init 10 10 2 3 Map.empty)
          \<lparr>uv_dict := [(''a'', 5), (''b'', 3), (''c'', 12), (''d'', 1)],
           items_waiting_for_lsr := [''c'']\<rparr>)"
  using timeout_changes_nothing [of "snd (run (init 10 10 2 3 Map.empty)
      [GeneratorCompletion 0
        [\<lparr>item_id = ''a'', rank = 1, score = 3\<rparr>, \<lparr>item_id = ''b'', rank = 1, score = 1\<rparr>,
         \<lparr>item_id = ''c'', rank = 1, score = 7\<rparr>, \<lparr>item_id = ''d'', rank = 1, score = - 1\<rparr>]])"]
  by (simp add: eval_defs)

section \<open>The scorer and ranks below 1\<close>

lemma log2_floor: "rnk \<le> 1 \<Longrightarrow> log 2 (real_of_int (max (1 + rnk) 2)) = 1"
  by (simp add: max_def)

lemma calc_low_rank:
  "rnk \<le> 1 \<Longrightarrow> calculate_user_value_estimate s g rnk scr = calculate_user_value_estimate s g 1 scr"
  by (simp add: calculate_user_value_estimate_def log2_floor)

text \<open>
  C6 reads: a rank below 1 is rejected at once as a validation error and not silently
  coerced. The source validates nothing: with the weights (0.5, 0.8, 0.2) of generator 1
  the scorer returns 1.42 for rank 0 and for rank -7 as it does for rank 1, and
  \<^verbatim>\<open>OnGeneratorCompletion\<close> stores that estimate and queues the item.
\<close>

theorem rank_below_one_counterexample:
  "calculate_user_value_estimate (init 10 (11/10) 5 3 (Map.empty(1 \<mapsto> (1/2, 8/10, 2/10)))) 1 0 (9/10)
     = 142/100 \<and>
   calculate_user_value_estimate (init 10 (11/10) 5 3 (Map.empty(1 \<mapsto> (1/2, 8/10, 2/10)))) 1 (- 7) (9/10)
     = 142/100 \<and>
   OnGeneratorCompletion (init 10 (11/10) 5 3 (Map.empty(1 \<mapsto> (1/2, 8/10, 2/10)))) 1
       [\<lparr>item_id = ''item_1'', rank = 0, score = 9/10\<rparr>]
     = ([], (init 10 (11/10) 5 3 (Map.empty(1 \<mapsto> (1/2, 8/10, 2/10))))
              \<lparr>uv_dict := [(''item_1'', 142/100)], items_waiting_for_lsr := [''item_1'']\<rparr>)"
  by (simp add: eval_defs)

text \<open>
  C6, as amended. A rank below 1 is accepted: the floor \<^verbatim>\<open>max(1 + rank, 2)\<close> makes
  the scorer return for it what it returns for rank 1, and \<^verbatim>\<open>OnGeneratorCompletion\<close>
  treats a result of such a rank as the same result with rank 1. Any real score is
  accepted and not clamped: the estimate grows with the score at the constant rate
  \<open>w1\<close>, the second weight of the generator.
\<close>

theorem rank_below_one_scored_as_one:
  "(rnk < 1 \<longrightarrow>
      calculate_user_value_estimate s g rnk scr = calculate_user_value_estimate s g 1 scr) \<and>
   (rank r < 1 \<longrightarrow>
      OnGeneratorCompletion s g [r] = OnGeneratorCompletion s g [r\<lparr>rank := 1\<rparr>]) \<and>
   calculate_user_value_estimate s g rnk scr - calculate_user_value_estimate s g rnk 0
     = fst (snd (case weights s g of None \<Rightarrow> (1, 1, 1) | Some w \<Rightarrow> w)) * scr"
proof (intro conjI impI)
  show "calculate_user_value_estimate s g rnk scr = calculate_user_value_estimate s g 1 scr"
    if "rnk < 1"
    using that by (intro calc_low_rank) simp
  show "OnGeneratorCompletion s g [r] = OnGeneratorCompletion s g [r\<lparr>rank := 1\<rparr>]"
    if "rank r < 1"
  proof -
    from that have "calculate_user_value_estimate s g (rank r) (score r)
        = calculate_user_value_estimate s g 1 (score r)"
      by (intro calc_low_rank) simp
    then have "process_result s g r = process_result s g (r\<lparr>rank := 1\<rparr>)"
      by (simp add: process_result_def Let_def)
    then show ?thesis
      by (simp only: OnGeneratorCompletion.simps)
  qed
  show "calculate_user_value_estimate s g rnk scr - calculate_user_value_estimate s g rnk 0
     = fst (snd (case weights s g of None \<Rightarrow> (1, 1, 1) | Some w \<Rightarrow> w)) * scr"
    by (simp add: calculate_user_value_estimate_def split: option.splits prod.splits)
qed

theorem rank_below_one_scored_as_one_witness:
  "(0::int) < 1 \<and>
   calculate_user_value_estimate (init 10 (11/10) 5 3 (Map.empty(1 \<mapsto> (1/2, 8/10, 2/10)))) 1 0 (9/10)
     = calculate_user_value_estimate (init 10 (11/10) 5 3 (Map.empty(1 \<mapsto> (1/2, 8/10, 2/10)))) 1 1 (9/10) \<and>
   OnGeneratorCompletion (init 10 (11/10) 5 3 (Map.empty(1 \<mapsto> (1/2, 8/10, 2/10)))) 1
       [\<lparr>item_id = ''item_1'', rank = 0, score = 9/10\<rparr>]
     = OnGeneratorCompletion (init 10 (11/10) 5 3 (Map.empty(1 \<mapsto> (1/2, 8/10, 2/10)))) 1
       [\<lparr>item_id = ''item_1'', rank = 1, score = 9/10\<rparr>] \<and>
   calculate_user_value_estimate (init 10 (11/10) 5 3 (Map.empty(1 \<mapsto> (1/2, 8/10, 2/10)))) 1 0 (- 1000)
     - calculate_user_value_estimate (init 10 (11/10) 5 3 (Map.empty(1 \<mapsto> (1/2, 8/10, 2/10)))) 1 0 0
     = - 800"
  using rank_below_one_scored_as_one [of 0 "init 10 (11/10) 5 3 (Map.empty(1 \<mapsto> (1/2, 8/10, 2/10)))" 1
      "9/10" "\<lparr>item_id = ''item_1'', rank = 0, score = 9/10\<rparr>"]
    rank_below_one_scored_as_one [of 0 "init 10 (11/10) 5 3 (Map.empty(1 \<mapsto> (1/2, 8/10, 2/10)))" 1
      "- 1000" "\<lparr>item_id = ''item_1'', rank = 0, score = 9/10\<rparr>"]
  by (simp add: eval_defs)

section \<open>The admission test\<close>

lemma enqueue_reaches_queue_or_sent:
  assumes "num_lsr_sent s < max_num_lsr s"
  shows "i \<in> set (items_waiting_for_lsr (snd (enqueue_for_late_stage_ranker s i))) \<or>
         already_sent (snd (enqueue_for_late_stage_ranker s i)) i \<noteq> None"
  using assms by (auto simp: enqueue_for_late_stage_ranker_def Let_def send_to_late_stage_ranker_eq)

text \<open>
  C2 reads: an item qualifies for the queue if and only if its stored estimate, after
  the update, exceeds the threshold and the item is not marked sent, even when the
  estimate of this arrival does not. Line 54 compares \<^verbatim>\<open>uv_estimate\<close>, the estimate
  of this arrival. With threshold 1.1, an item stored at 5 and not yet sent arrives again
  with estimate 0.5: the stored value stays 5, and the test fails. With threshold -1, a
  new item with estimate -3 is stored at 0, above the threshold, and is not queued
  although the budget is untouched.
\<close>

theorem admission_counterexample:
  "stored (snd (process_result
       (snd (run (init 10 (11/10) 5 3 Map.empty)
          [GeneratorCompletion 0 [\<lparr>item_id = ''x'', rank = 1, score = 3\<rparr>]]))
       0 \<lparr>item_id = ''x'', rank = 1, score = - 3 / 2\<rparr>)) ''x'' = Some 5 \<and>
   lsr_sufficiency_threshold (snd (process_result
       (snd (run (init 10 (11/10) 5 3 Map.empty)
          [GeneratorCompletion 0 [\<lparr>item_id = ''x'', rank = 1, score = 3\<rparr>]]))
       0 \<lparr>item_id = ''x'', rank = 1, score = - 3 / 2\<rparr>)) < 5 \<and>
   already_sent (snd (process_result
       (snd (run (init 10 (11/10) 5 3 Map.empty)
          [GeneratorCompletion 0 [\<lparr>item_id = ''x'', rank = 1, score = 3\<rparr>]]))
       0 \<lparr>item_id = ''x'', rank = 1, score = - 3 / 2\<rparr>)) ''x'' = None \<and>
   calculate_user_value_estimate
       (snd (run (init 10 (11/10) 5 3 Map.empty)
          [GeneratorCompletion 0 [\<lparr>item_id = ''x'', rank = 1, score = 3\<rparr>]]))
       0 1 (- 3 / 2) = 1 / 2 \<and>
   \<not> admission_test (snd (process_result
       (snd (run (init 10 (11/10) 5 3 Map.empty)
          [GeneratorCompletion 0 [\<lparr>item_id = ''x'', rank = 1, score = 3\<rparr>]]))
       0 \<lparr>item_id = ''x'', rank = 1, score = - 3 / 2\<rparr>)) ''x'' (1 / 2) \<and>
   run (init 10 (- 1) 5 3 Map.empty)
       [GeneratorCompletion 0 [\<lparr>item_id = ''x'', rank = 1, score = - 5\<rparr>]]
     = ([], (init 10 (- 1) 5 3 Map.empty)\<lparr>uv_dict := [(''x'', 0)]\<rparr>)"
  by (simp add: eval_defs)

text \<open>
  C2, as amended. A result qualifies if and only if the estimate computed for this
  arrival exceeds the threshold and the item is not marked sent: then the item is handed
  to \<^verbatim>\<open>enqueue_for_late_stage_ranker\<close>, and with budget left it is in the queue or
  marked sent afterwards; otherwise the call only updates the estimate store.
\<close>

theorem admission_by_new_estimate:
  "(lsr_sufficiency_threshold s < calculate_user_value_estimate s g (rank r) (score r) \<and>
    already_sent s (item_id r) = None \<longrightarrow>
      process_result s g r =
        enqueue_for_late_stage_ranker
          (s\<lparr> uv_dict := dict_set (uv_dict s) (item_id r)
                 (max (dict_get (uv_dict s) (item_id r) 0)
                      (calculate_user_value_estimate s g (rank r) (score r))) \<rparr>)
          (item_id r)) \<and>
   (\<not> (lsr_sufficiency_threshold s < calculate_user_value_estimate s g (rank r) (score r) \<and>
       already_sent s (item_id r) = None) \<longrightarrow>
      process_result s g r =
        ([], s\<lparr> uv_dict := dict_set (uv_dict s) (item_id r)
                 (max (dict_get (uv_dict s) (item_id r) 0)
                      (calculate_user_value_estimate s g (rank r) (score r))) \<rparr>)) \<and>
   (lsr_sufficiency_threshold s < calculate_user_value_estimate s g (rank r) (score r) \<and>
    already_sent s (item_id r) = None \<and> num_lsr_sent s < max_num_lsr s \<longrightarrow>
      item_id r \<in> set (items_waiting_for_lsr (snd (process_result s g r))) \<or>
      already_sent (snd (process_result s g r)) (item_id r) \<noteq> None)"
proof (intro conjI impI)
  let ?e = "calculate_user_value_estimate s g (rank r) (score r)"
  let ?s1 = "s\<lparr> uv_dict := dict_set (uv_dict s) (item_id r) (max (dict_get (uv_dict s) (item_id r) 0) ?e) \<rparr>"
  show a: "process_result s g r = enqueue_for_late_stage_ranker ?s1 (item_id r)"
    if "lsr_sufficiency_threshold s < ?e \<and> already_sent s (item_id r) = None"
    using that by (simp add: process_result_def Let_def admission_test_def)
  show "process_result s g r = ([], ?s1)"
    if "\<not> (lsr_sufficiency_threshold s < ?e \<and> already_sent s (item_id r) = None)"
    using that by (auto simp: process_result_def Let_def admission_test_def)
  show "item_id r \<in> set (items_waiting_for_lsr (snd (process_result s g r))) \<or>
      already_sent (snd (process_result s g r)) (item_id r) \<noteq> None"
    if h: "lsr_sufficiency_threshold s < ?e \<and> already_sent s (item_id r) = None \<and>
        num_lsr_sent s < max_num_lsr s"
  proof -
    have "process_result s g r = enqueue_for_late_stage_ranker ?s1 (item_id r)"
      using h by (intro a) simp
    moreover have "num_lsr_sent ?s1 < max_num_lsr ?s1"
      using h by simp
    ultimately show ?thesis
      using enqueue_reaches_queue_or_sent [of ?s1 "item_id r"] by simp
  qed
qed

theorem admission_by_new_estimate_witness:
  "process_result (init 10 (11/10) 5 3 (Map.empty(1 \<mapsto> (1/2, 8/10, 2/10)))) 1
       \<lparr>item_id = ''item_1'', rank = 1, score = 9/10\<rparr>
     = ([], (init 10 (11/10) 5 3 (Map.empty(1 \<mapsto> (1/2, 8/10, 2/10))))
              \<lparr>uv_dict := [(''item_1'', 142/100)], items_waiting_for_lsr := [''item_1'']\<rparr>) \<and>
   process_result (init 10 (11/10) 5 3 (Map.empty(1 \<mapsto> (1/2, 8/10, 2/10)))) 1
       \<lparr>item_id = ''item_9'', rank = 1, score = 1/10\<rparr>
     = ([], (init 10 (11/10) 5 3 (Map.empty(1 \<mapsto> (1/2, 8/10, 2/10))))
              \<lparr>uv_dict := [(''item_9'', 78/100)]\<rparr>) \<and>
   process_result (init 10 (11/10) 5 1 (Map.empty(1 \<mapsto> (1/2, 8/10, 2/10)))) 1
       \<lparr>item_id = ''item_1'', rank = 1, score = 9/10\<rparr>
     = ([LateStage [''item_1'']],
        (init 10 (11/10) 5 1 (Map.empty(1 \<mapsto> (1/2, 8/10, 2/10))))
              \<lparr>uv_dict := [(''item_1'', 142/100)], num_lsr_sent := 1,
               already_sent := Map.empty(''item_1'' \<mapsto> True)\<rparr>)"
  using admission_by_new_estimate [of "init 10 (11/10) 5 3 (Map.empty(1 \<mapsto> (1/2, 8/10, 2/10)))" 1
      "\<lparr>item_id = ''item_1'', rank = 1, score = 9/10\<rparr>"]
    admission_by_new_estimate [of "init 10 (11/10) 5 3 (Map.empty(1 \<mapsto> (1/2, 8/10, 2/10)))" 1
      "\<lparr>item_id = ''item_9'', rank = 1, score = 1/10\<rparr>"]
    admission_by_new_estimate [of "init 10 (11/10) 5 1 (Map.empty(1 \<mapsto> (1/2, 8/10, 2/10)))" 1
      "\<lparr>item_id = ''item_1'', rank = 1, score = 9/10\<rparr>"]
  by (simp add: eval_defs send_loop_eq fun_eq_iff)

section \<open>The late stage queue\<close>

subsection \<open>The three cases of an enqueue\<close>

lemma calc_upd:
  "calculate_user_value_estimate (s\<lparr>uv_dict := d\<rparr>) = calculate_user_value_estimate s"
  "calculate_user_value_estimate (s\<lparr>items_waiting_for_lsr := q\<rparr>) = calculate_user_value_estimate s"
  by (rule calc_cong, simp)+

lemma enqueue_noop:
  "max_num_lsr s \<le> num_lsr_sent s \<or> i \<in> set (items_waiting_for_lsr s) \<Longrightarrow>
     enqueue_for_late_stage_ranker s i = ([], s)"
  by (auto simp: enqueue_for_late_stage_ranker_def)

lemma enqueue_append:
  "num_lsr_sent s < max_num_lsr s \<Longrightarrow> i \<notin> set (items_waiting_for_lsr s) \<Longrightarrow>
   int (length (items_waiting_for_lsr s)) + 1 < lsr_batch_size s \<Longrightarrow>
     enqueue_for_late_stage_ranker s i = ([], s\<lparr>items_waiting_for_lsr := items_waiting_for_lsr s @ [i]\<rparr>)"
  by (simp add: enqueue_for_late_stage_ranker_def Let_def)

lemma enqueue_flush:
  assumes "num_lsr_sent s < max_num_lsr s" and "i \<notin> set (items_waiting_for_lsr s)"
    and "lsr_batch_size s \<le> int (length (items_waiting_for_lsr s)) + 1"
  shows "enqueue_for_late_stage_ranker s i =
     ([LateStage (filter (\<lambda>x. already_sent s x = None) (first_occurrences (items_waiting_for_lsr s @ [i])))],
      s\<lparr> already_sent := (\<lambda>x. if x \<in> set (items_waiting_for_lsr s @ [i]) \<and> already_sent s x = None
                               then Some True else already_sent s x),
         num_lsr_sent := num_lsr_sent s
            + int (length (filter (\<lambda>x. already_sent s x = None)
                             (first_occurrences (items_waiting_for_lsr s @ [i])))),
         items_waiting_for_lsr := [] \<rparr>)"
  using assms
  by (simp add: enqueue_for_late_stage_ranker_def Let_def send_to_late_stage_ranker_eq cong: if_cong)

lemma unsent_batch_fresh:
  assumes "distinct q" and "\<forall>x \<in> set q. sent x = None"
  shows "filter (\<lambda>x. sent x = None) (first_occurrences q) = q"
  using assms by (simp add: first_occurrences_distinct filter_id_conv)

lemma flush_fresh:
  assumes "num_lsr_sent s < max_num_lsr s" and "i \<notin> set (items_waiting_for_lsr s)"
    and "lsr_batch_size s \<le> int (length (items_waiting_for_lsr s)) + 1"
    and "distinct (items_waiting_for_lsr s)"
    and "\<forall>x \<in> set (items_waiting_for_lsr s). already_sent s x = None"
    and "already_sent s i = None"
  shows "fst (enqueue_for_late_stage_ranker s i) = [LateStage (items_waiting_for_lsr s @ [i])]"
    and "num_lsr_sent (snd (enqueue_for_late_stage_ranker s i))
           = num_lsr_sent s + int (length (items_waiting_for_lsr s)) + 1"
    and "max_num_lsr (snd (enqueue_for_late_stage_ranker s i)) = max_num_lsr s"
    and "dom (already_sent (snd (enqueue_for_late_stage_ranker s i)))
           = dom (already_sent s) \<union> set (items_waiting_for_lsr s @ [i])"
proof -
  have b: "filter (\<lambda>x. already_sent s x = None) (first_occurrences (items_waiting_for_lsr s @ [i]))
      = items_waiting_for_lsr s @ [i]"
    using assms(2,4,5,6) by (intro unsent_batch_fresh) simp_all
  note e = enqueue_flush [OF assms(1-3), unfolded b]
  show "fst (enqueue_for_late_stage_ranker s i) = [LateStage (items_waiting_for_lsr s @ [i])]"
    by (simp add: e)
  show "num_lsr_sent (snd (enqueue_for_late_stage_ranker s i))
           = num_lsr_sent s + int (length (items_waiting_for_lsr s)) + 1"
    by (simp add: e)
  show "max_num_lsr (snd (enqueue_for_late_stage_ranker s i)) = max_num_lsr s"
    by (simp add: e)
  show "dom (already_sent (snd (enqueue_for_late_stage_ranker s i)))
           = dom (already_sent s) \<union> set (items_waiting_for_lsr s @ [i])"
    unfolding e by (auto simp: dom_def split: if_splits)
qed

lemma process_admitted:
  assumes "lsr_sufficiency_threshold s < calculate_user_value_estimate s g (rank r) (score r)"
    and "already_sent s (item_id r) = None"
  shows "process_result s g r =
     enqueue_for_late_stage_ranker
       (s\<lparr> uv_dict := dict_set (uv_dict s) (item_id r)
              (max (dict_get (uv_dict s) (item_id r) 0)
                   (calculate_user_value_estimate s g (rank r) (score r))) \<rparr>)
       (item_id r)"
  using assms by (simp add: process_result_def Let_def admission_test_def)

subsection \<open>The queue of a reachable state\<close>

lemma queue_fresh_enqueue:
  assumes "queue_fresh s" and "already_sent s i = None"
  shows "queue_fresh (snd (enqueue_for_late_stage_ranker s i))"
  using assms
  by (auto simp: queue_fresh_def enqueue_for_late_stage_ranker_def Let_def send_to_late_stage_ranker_eq)

lemma queue_fresh_process:
  assumes "queue_fresh s"
  shows "queue_fresh (snd (process_result s g r))"
proof -
  let ?e = "calculate_user_value_estimate s g (rank r) (score r)"
  let ?s1 = "s\<lparr> uv_dict := dict_set (uv_dict s) (item_id r) (max (dict_get (uv_dict s) (item_id r) 0) ?e) \<rparr>"
  have f: "queue_fresh ?s1"
    using assms by (simp add: queue_fresh_def)
  show ?thesis
  proof (cases "admission_test ?s1 (item_id r) ?e")
    case True
    then have "already_sent ?s1 (item_id r) = None"
      by (simp add: admission_test_def)
    from queue_fresh_enqueue [OF f this] True show ?thesis
      by (simp add: process_result_def Let_def)
  next
    case False
    with f show ?thesis
      by (simp add: process_result_def Let_def)
  qed
qed

lemma queue_fresh_OnGeneratorCompletion:
  "queue_fresh s \<Longrightarrow> queue_fresh (snd (OnGeneratorCompletion s g rs))"
proof (induction rs arbitrary: s)
  case Nil
  then show ?case by simp
next
  case (Cons r rs)
  then show ?case
    by (simp only: OnGeneratorCompletion_Cons_snd queue_fresh_process)
qed

lemma queue_fresh_run: "queue_fresh s \<Longrightarrow> queue_fresh (snd (run s cs))"
proof (induction cs arbitrary: s)
  case Nil
  then show ?case by simp
next
  case (Cons c cs)
  have "queue_fresh (snd (do_call s c))"
    using Cons.prems by (cases c) (simp_all add: queue_fresh_OnGeneratorCompletion OnTimeOut_state)
  then show ?case
    by (simp only: run_Cons_snd Cons.IH)
qed

lemma queue_fresh_init: "queue_fresh (init mx thr me bs ws)"
  by (simp add: queue_fresh_def init_def)

text \<open>
  C4. \<^verbatim>\<open>enqueue_for_late_stage_ranker\<close> changes nothing when the counter has reached
  \<^verbatim>\<open>max_num_lsr\<close> or the item is in the queue. Otherwise it appends the item at the
  end; below the batch size nothing else happens. Once the length reaches
  \<^verbatim>\<open>lsr_batch_size\<close> the flush fires: it dispatches the queue in its order, without
  repetitions and without items already marked sent, marks every item of the queue
  sent and no other, adds the length of the dispatched list to the counter and leaves
  the queue empty. In every state that the service reaches from its construction, for an
  item that passed the admission test, nothing is left out: the dispatched list is the
  whole queue with the new item at its end.
\<close>

theorem enqueue_and_flush:
  "(max_num_lsr s \<le> num_lsr_sent s \<or> i \<in> set (items_waiting_for_lsr s) \<longrightarrow>
      enqueue_for_late_stage_ranker s i = ([], s)) \<and>
   (num_lsr_sent s < max_num_lsr s \<and> i \<notin> set (items_waiting_for_lsr s) \<and>
    int (length (items_waiting_for_lsr s)) + 1 < lsr_batch_size s \<longrightarrow>
      enqueue_for_late_stage_ranker s i
        = ([], s\<lparr>items_waiting_for_lsr := items_waiting_for_lsr s @ [i]\<rparr>)) \<and>
   (num_lsr_sent s < max_num_lsr s \<and> i \<notin> set (items_waiting_for_lsr s) \<and>
    lsr_batch_size s \<le> int (length (items_waiting_for_lsr s)) + 1 \<longrightarrow>
      fst (enqueue_for_late_stage_ranker s i)
        = [LateStage (filter (\<lambda>x. already_sent s x = None)
                        (first_occurrences (items_waiting_for_lsr s @ [i])))] \<and>
      (\<forall>x \<in> set (items_waiting_for_lsr s @ [i]).
          already_sent (snd (enqueue_for_late_stage_ranker s i)) x \<noteq> None) \<and>
      (\<forall>x. x \<notin> set (items_waiting_for_lsr s @ [i]) \<longrightarrow>
          already_sent (snd (enqueue_for_late_stage_ranker s i)) x = already_sent s x) \<and>
      num_lsr_sent (snd (enqueue_for_late_stage_ranker s i))
        = num_lsr_sent s
          + int (length (filter (\<lambda>x. already_sent s x = None)
                           (first_occurrences (items_waiting_for_lsr s @ [i])))) \<and>
      items_waiting_for_lsr (snd (enqueue_for_late_stage_ranker s i)) = []) \<and>
   (i \<notin> set (items_waiting_for_lsr (snd (run (init mx thr me bs ws) cs))) \<and>
    already_sent (snd (run (init mx thr me bs ws) cs)) i = None \<longrightarrow>
      filter (\<lambda>x. already_sent (snd (run (init mx thr me bs ws) cs)) x = None)
        (first_occurrences (items_waiting_for_lsr (snd (run (init mx thr me bs ws) cs)) @ [i]))
        = items_waiting_for_lsr (snd (run (init mx thr me bs ws) cs)) @ [i])"
proof (intro conjI impI)
  show "enqueue_for_late_stage_ranker s i = ([], s)"
    if "max_num_lsr s \<le> num_lsr_sent s \<or> i \<in> set (items_waiting_for_lsr s)"
    using that by (rule enqueue_noop)
  show "enqueue_for_late_stage_ranker s i = ([], s\<lparr>items_waiting_for_lsr := items_waiting_for_lsr s @ [i]\<rparr>)"
    if "num_lsr_sent s < max_num_lsr s \<and> i \<notin> set (items_waiting_for_lsr s) \<and>
        int (length (items_waiting_for_lsr s)) + 1 < lsr_batch_size s"
    using that by (simp add: enqueue_append)
next
  assume h: "num_lsr_sent s < max_num_lsr s \<and> i \<notin> set (items_waiting_for_lsr s) \<and>
    lsr_batch_size s \<le> int (length (items_waiting_for_lsr s)) + 1"
  then have e: "enqueue_for_late_stage_ranker s i =
     ([LateStage (filter (\<lambda>x. already_sent s x = None) (first_occurrences (items_waiting_for_lsr s @ [i])))],
      s\<lparr> already_sent := (\<lambda>x. if x \<in> set (items_waiting_for_lsr s @ [i]) \<and> already_sent s x = None
                               then Some True else already_sent s x),
         num_lsr_sent := num_lsr_sent s
            + int (length (filter (\<lambda>x. already_sent s x = None)
                             (first_occurrences (items_waiting_for_lsr s @ [i])))),
         items_waiting_for_lsr := [] \<rparr>)"
    by (intro enqueue_flush) simp_all
  show "fst (enqueue_for_late_stage_ranker s i)
        = [LateStage (filter (\<lambda>x. already_sent s x = None)
                        (first_occurrences (items_waiting_for_lsr s @ [i])))]"
    by (simp add: e)
  show "\<forall>x \<in> set (items_waiting_for_lsr s @ [i]).
          already_sent (snd (enqueue_for_late_stage_ranker s i)) x \<noteq> None"
    unfolding e by (simp del: not_None_eq)
  show "\<forall>x. x \<notin> set (items_waiting_for_lsr s @ [i]) \<longrightarrow>
          already_sent (snd (enqueue_for_late_stage_ranker s i)) x = already_sent s x"
    by (simp add: e)
  show "num_lsr_sent (snd (enqueue_for_late_stage_ranker s i))
        = num_lsr_sent s
          + int (length (filter (\<lambda>x. already_sent s x = None)
                           (first_occurrences (items_waiting_for_lsr s @ [i]))))"
    by (simp add: e)
  show "items_waiting_for_lsr (snd (enqueue_for_late_stage_ranker s i)) = []"
    by (simp add: e)
next
  let ?t = "snd (run (init mx thr me bs ws) cs)"
  assume h: "i \<notin> set (items_waiting_for_lsr ?t) \<and> already_sent ?t i = None"
  have "queue_fresh ?t"
    by (rule queue_fresh_run) (rule queue_fresh_init)
  with h have "distinct (items_waiting_for_lsr ?t @ [i])"
    and "\<forall>x \<in> set (items_waiting_for_lsr ?t @ [i]). already_sent ?t x = None"
    by (simp_all add: queue_fresh_def)
  then show "filter (\<lambda>x. already_sent ?t x = None) (first_occurrences (items_waiting_for_lsr ?t @ [i]))
        = items_waiting_for_lsr ?t @ [i]"
    by (rule unsent_batch_fresh)
qed

theorem enqueue_and_flush_witness:
  "enqueue_for_late_stage_ranker ((init 10 (11/10) 5 3 Map.empty)\<lparr>num_lsr_sent := 10\<rparr>) ''a''
     = ([], (init 10 (11/10) 5 3 Map.empty)\<lparr>num_lsr_sent := 10\<rparr>) \<and>
   enqueue_for_late_stage_ranker ((init 10 (11/10) 5 3 Map.empty)\<lparr>items_waiting_for_lsr := [''a'']\<rparr>) ''a''
     = ([], (init 10 (11/10) 5 3 Map.empty)\<lparr>items_waiting_for_lsr := [''a'']\<rparr>) \<and>
   enqueue_for_late_stage_ranker ((init 10 (11/10) 5 3 Map.empty)\<lparr>items_waiting_for_lsr := [''a'']\<rparr>) ''b''
     = ([], (init 10 (11/10) 5 3 Map.empty)\<lparr>items_waiting_for_lsr := [''a'', ''b'']\<rparr>) \<and>
   fst (enqueue_for_late_stage_ranker
          ((init 10 (11/10) 5 3 Map.empty)\<lparr>items_waiting_for_lsr := [''a'', ''b'']\<rparr>) ''c'')
     = [LateStage [''a'', ''b'', ''c'']] \<and>
   num_lsr_sent (snd (enqueue_for_late_stage_ranker
          ((init 10 (11/10) 5 3 Map.empty)\<lparr>items_waiting_for_lsr := [''a'', ''b'']\<rparr>) ''c'')) = 3 \<and>
   items_waiting_for_lsr (snd (enqueue_for_late_stage_ranker
          ((init 10 (11/10) 5 3 Map.empty)\<lparr>items_waiting_for_lsr := [''a'', ''b'']\<rparr>) ''c'')) = [] \<and>
   already_sent (snd (enqueue_for_late_stage_ranker
          ((init 10 (11/10) 5 3 Map.empty)\<lparr>items_waiting_for_lsr := [''a'', ''b'']\<rparr>) ''c'')) ''b''
     = Some True \<and>
   items_waiting_for_lsr (snd (run (init 10 (11/10) 5 3 Map.empty)
       [GeneratorCompletion 0 [\<lparr>item_id = ''a'', rank = 1, score = 1\<rparr>,
                               \<lparr>item_id = ''b'', rank = 1, score = 1\<rparr>]])) = [''a'', ''b''] \<and>
   already_sent (snd (run (init 10 (11/10) 5 3 Map.empty)
       [GeneratorCompletion 0 [\<lparr>item_id = ''a'', rank = 1, score = 1\<rparr>,
                               \<lparr>item_id = ''b'', rank = 1, score = 1\<rparr>]])) ''c'' = None"
  using enqueue_and_flush [of "(init 10 (11/10) 5 3 Map.empty)\<lparr>num_lsr_sent := 10\<rparr>" "''a''"]
    enqueue_and_flush [of "(init 10 (11/10) 5 3 Map.empty)\<lparr>items_waiting_for_lsr := [''a'']\<rparr>" "''a''"]
    enqueue_and_flush [of "(init 10 (11/10) 5 3 Map.empty)\<lparr>items_waiting_for_lsr := [''a'']\<rparr>" "''b''"]
    enqueue_and_flush [of "(init 10 (11/10) 5 3 Map.empty)\<lparr>items_waiting_for_lsr := [''a'', ''b'']\<rparr>" "''c''"
      10 "11/10" 5 3 Map.empty
      "[GeneratorCompletion 0 [\<lparr>item_id = ''a'', rank = 1, score = 1\<rparr>,
                               \<lparr>item_id = ''b'', rank = 1, score = 1\<rparr>]]"]
  by (simp add: eval_defs send_loop_eq)

text \<open>
  C3. With \<^verbatim>\<open>max_num_lsr\<close> 10 and batch size 3, in a state with 8 items marked sent,
  the counter at 8 and an empty queue, three results in one call, for three different
  items not yet sent and with estimates above the threshold, are all admitted (each test
  reads the counter at 8) and flushed together: the batch holds the three items, the
  counter becomes 11, above the ceiling of 10, and 11 items are marked sent.
\<close>

theorem budget_overshoot:
  assumes "max_num_lsr s = 10" and "lsr_batch_size s = 3" and "num_lsr_sent s = 8"
    and "card (dom (already_sent s)) = 8" and "items_waiting_for_lsr s = []"
    and "distinct [item_id ra, item_id rb, item_id rc]"
    and "already_sent s (item_id ra) = None" and "already_sent s (item_id rb) = None"
    and "already_sent s (item_id rc) = None"
    and "lsr_sufficiency_threshold s < calculate_user_value_estimate s g (rank ra) (score ra)"
    and "lsr_sufficiency_threshold s < calculate_user_value_estimate s g (rank rb) (score rb)"
    and "lsr_sufficiency_threshold s < calculate_user_value_estimate s g (rank rc) (score rc)"
  shows "fst (OnGeneratorCompletion s g [ra, rb, rc]) = [LateStage [item_id ra, item_id rb, item_id rc]] \<and>
         num_lsr_sent (snd (OnGeneratorCompletion s g [ra, rb, rc])) = 11 \<and>
         max_num_lsr (snd (OnGeneratorCompletion s g [ra, rb, rc]))
           < num_lsr_sent (snd (OnGeneratorCompletion s g [ra, rb, rc])) \<and>
         card (dom (already_sent (snd (OnGeneratorCompletion s g [ra, rb, rc])))) = 11"
proof -
  let ?a = "item_id ra" and ?b = "item_id rb" and ?c = "item_id rc"
  have ne: "?a \<noteq> ?b" "?a \<noteq> ?c" "?b \<noteq> ?c"
    using assms(6) by auto
  note facts = ne assms(1-3,5,7-12)
  let ?da = "dict_set (uv_dict s) ?a
      (max (dict_get (uv_dict s) ?a 0) (calculate_user_value_estimate s g (rank ra) (score ra)))"
  let ?sa = "s\<lparr>uv_dict := ?da, items_waiting_for_lsr := [?a]\<rparr>"
  have pa: "process_result s g ra = ([], ?sa)"
    using facts by (simp add: process_admitted enqueue_append)
  let ?db = "dict_set ?da ?b
      (max (dict_get ?da ?b 0) (calculate_user_value_estimate s g (rank rb) (score rb)))"
  let ?sb = "s\<lparr>uv_dict := ?db, items_waiting_for_lsr := [?a, ?b]\<rparr>"
  have pb: "process_result ?sa g rb = ([], ?sb)"
    using facts by (simp add: process_admitted enqueue_append calc_upd)
  let ?dc = "dict_set ?db ?c
      (max (dict_get ?db ?c 0) (calculate_user_value_estimate s g (rank rc) (score rc)))"
  let ?sb' = "s\<lparr>items_waiting_for_lsr := [?a, ?b], uv_dict := ?dc\<rparr>"
  have pc: "process_result ?sb g rc = enqueue_for_late_stage_ranker ?sb' ?c"
    using facts by (simp add: process_admitted calc_upd)
  have all: "OnGeneratorCompletion s g [ra, rb, rc] = enqueue_for_late_stage_ranker ?sb' ?c"
    by (simp add: pa pb pc)
  have 1: "num_lsr_sent ?sb' < max_num_lsr ?sb'"
    and 2: "?c \<notin> set (items_waiting_for_lsr ?sb')"
    and 3: "lsr_batch_size ?sb' \<le> int (length (items_waiting_for_lsr ?sb')) + 1"
    and 4: "distinct (items_waiting_for_lsr ?sb')"
    and 5: "\<forall>x \<in> set (items_waiting_for_lsr ?sb'). already_sent ?sb' x = None"
    and 6: "already_sent ?sb' ?c = None"
    using facts by simp_all
  note fl = flush_fresh [OF 1 2 3 4 5 6]
  have fin: "finite (dom (already_sent s))"
    using assms(4) by (simp add: card_ge_0_finite)
  have dis: "dom (already_sent s) \<inter> {?a, ?b, ?c} = {}"
    using assms(7-9) by (auto simp: dom_def)
  have u: "card (dom (already_sent s) \<union> {?a, ?b, ?c})
      = card (dom (already_sent s)) + card {?a, ?b, ?c}"
    using fin dis by (intro card_Un_disjoint) simp_all
  have "card (dom (already_sent s) \<union> {?a, ?b, ?c}) = 11"
    unfolding u using assms(4) ne by simp
  moreover have "dom (already_sent (snd (enqueue_for_late_stage_ranker ?sb' ?c)))
      = dom (already_sent s) \<union> {?a, ?b, ?c}"
    using fl(4) by simp
  ultimately have c: "card (dom (already_sent (snd (enqueue_for_late_stage_ranker ?sb' ?c)))) = 11"
    by (simp only:)
  have r1: "fst (enqueue_for_late_stage_ranker ?sb' ?c) = [LateStage [?a, ?b, ?c]]"
    using fl(1) by simp
  have r2: "num_lsr_sent (snd (enqueue_for_late_stage_ranker ?sb' ?c)) = 11"
    using fl(2) assms(3) by simp
  have r3: "max_num_lsr (snd (enqueue_for_late_stage_ranker ?sb' ?c)) = 10"
    using fl(3) assms(1) by simp
  show ?thesis
    unfolding all r1 r2 r3 c by simp
qed

theorem budget_overshoot_witness:
  "max_num_lsr ((init 10 (11/10) 5 3 Map.empty)
      \<lparr>num_lsr_sent := 8,
       already_sent := [''s1'' \<mapsto> True, ''s2'' \<mapsto> True, ''s3'' \<mapsto> True, ''s4'' \<mapsto> True,
                        ''s5'' \<mapsto> True, ''s6'' \<mapsto> True, ''s7'' \<mapsto> True, ''s8'' \<mapsto> True]\<rparr>) = 10 \<and>
   card (dom (already_sent ((init 10 (11/10) 5 3 Map.empty)
      \<lparr>num_lsr_sent := 8,
       already_sent := [''s1'' \<mapsto> True, ''s2'' \<mapsto> True, ''s3'' \<mapsto> True, ''s4'' \<mapsto> True,
                        ''s5'' \<mapsto> True, ''s6'' \<mapsto> True, ''s7'' \<mapsto> True, ''s8'' \<mapsto> True]\<rparr>))) = 8 \<and>
   fst (OnGeneratorCompletion ((init 10 (11/10) 5 3 Map.empty)
      \<lparr>num_lsr_sent := 8,
       already_sent := [''s1'' \<mapsto> True, ''s2'' \<mapsto> True, ''s3'' \<mapsto> True, ''s4'' \<mapsto> True,
                        ''s5'' \<mapsto> True, ''s6'' \<mapsto> True, ''s7'' \<mapsto> True, ''s8'' \<mapsto> True]\<rparr>) 0
      [\<lparr>item_id = ''x'', rank = 1, score = 1\<rparr>, \<lparr>item_id = ''y'', rank = 1, score = 1\<rparr>,
       \<lparr>item_id = ''z'', rank = 1, score = 1\<rparr>]) = [LateStage [''x'', ''y'', ''z'']] \<and>
   num_lsr_sent (snd (OnGeneratorCompletion ((init 10 (11/10) 5 3 Map.empty)
      \<lparr>num_lsr_sent := 8,
       already_sent := [''s1'' \<mapsto> True, ''s2'' \<mapsto> True, ''s3'' \<mapsto> True, ''s4'' \<mapsto> True,
                        ''s5'' \<mapsto> True, ''s6'' \<mapsto> True, ''s7'' \<mapsto> True, ''s8'' \<mapsto> True]\<rparr>) 0
      [\<lparr>item_id = ''x'', rank = 1, score = 1\<rparr>, \<lparr>item_id = ''y'', rank = 1, score = 1\<rparr>,
       \<lparr>item_id = ''z'', rank = 1, score = 1\<rparr>])) = 11"
  using budget_overshoot [of "(init 10 (11/10) 5 3 Map.empty)
      \<lparr>num_lsr_sent := 8,
       already_sent := [''s1'' \<mapsto> True, ''s2'' \<mapsto> True, ''s3'' \<mapsto> True, ''s4'' \<mapsto> True,
                        ''s5'' \<mapsto> True, ''s6'' \<mapsto> True, ''s7'' \<mapsto> True, ''s8'' \<mapsto> True]\<rparr>"
      "\<lparr>item_id = ''x'', rank = 1, score = 1\<rparr>" "\<lparr>item_id = ''y'', rank = 1, score = 1\<rparr>"
      "\<lparr>item_id = ''z'', rank = 1, score = 1\<rparr>" 0]
  by (simp add: init_def calculate_user_value_estimate_def)

section \<open>What the timeout dispatches\<close>

lemma sorted_reverse_desc: "sorted_wrt (\<lambda>x y. f y \<le> f x) (sorted_reverse f xs)"
proof -
  have "sorted (map f (sort_key f (rev xs)))"
    by (rule sorted_sort_key)
  then have "sorted_wrt (\<lambda>x y. f x \<le> f y) (sort_key f (rev xs))"
    by (simp add: sorted_map)
  then show ?thesis
    by (simp add: sorted_reverse_def sorted_wrt_rev)
qed

lemma sorted_reverse_set: "set (sorted_reverse f xs) = set xs"
  by (simp add: sorted_reverse_def)

lemma slice_to_take: "\<exists>n. slice_to xs k = take n xs"
  by (auto simp: slice_to_def)

lemma slice_to_length:
  "length (slice_to xs k) =
     (if 0 \<le> k then min (nat k) (length xs) else length xs - nat (- k))"
  by (simp add: slice_to_def min.commute)

lemma take_top:
  assumes "sorted_wrt (\<lambda>x y. f y \<le> f x) xs" and "x \<in> set (take n xs)"
    and "y \<in> set xs" and "y \<notin> set (take n xs)"
  shows "f y \<le> f x"
proof -
  have "y \<in> set (drop n xs)"
    using assms(3,4) by (metis Un_iff append_take_drop_id set_append)
  moreover have "sorted_wrt (\<lambda>x y. f y \<le> f x) (take n xs @ drop n xs)"
    using assms(1) by simp
  ultimately show ?thesis
    using assms(2) unfolding sorted_wrt_append by blast
qed

lemma length_filter_sorted_reverse:
  "length (filter P (sorted_reverse f xs)) = length (filter P xs)"
proof -
  have "filter P (sorted_reverse f xs) = rev (sort_key f (filter P (rev xs)))"
    by (simp add: sorted_reverse_def rev_filter [symmetric] filter_sort)
  then show ?thesis
    by (simp add: rev_filter [symmetric])
qed

lemma snd_image_abcd:
  "snd ` {(a, 5), (b, 3), (c, 9), (d, 1)} = {1, 3, 5, 9 :: real}"
  by auto

lemma inj_abcd: "inj_on snd {(a, 5::real), (b, 3), (c, 9), (d, 1)}"
  by (simp add: inj_on_def)

lemma pick_abcd:
  fixes y :: "string \<times> real"
  assumes "y \<in> {(a, 5), (b, 3), (c, 9), (d, 1)}"
  shows "snd y = 1 \<Longrightarrow> y = (d, 1)" and "snd y = 3 \<Longrightarrow> y = (b, 3)"
    and "snd y = 5 \<Longrightarrow> y = (a, 5)" and "snd y = 9 \<Longrightarrow> y = (c, 9)"
  using assms by auto

lemma map_snd_4:
  assumes "map snd Y = [p, q, r, t]"
  shows "\<exists>y1 y2 y3 y4. Y = [y1, y2, y3, y4] \<and> snd y1 = p \<and> snd y2 = q \<and> snd y3 = r \<and> snd y4 = t"
  using assms by (auto simp: map_eq_Cons_conv)

lemma sorted_1359: "sorted [1, 3, 5, 9 :: real] \<and> distinct [1, 3, 5, 9 :: real]"
  by simp

lemma sorted_reverse_abcd:
  fixes a b c d :: string and uv :: "(string \<times> real) list"
  assumes dk: "distinct (map fst uv)"
    and st: "set uv = {(a, 5), (b, 3), (c, 9), (d, 1)}"
  shows "sorted_reverse snd uv = [(c, 9), (a, 5), (b, 3), (d, 1)]"
proof -
  let ?Y = "sort_key snd (rev uv)"
  have d: "distinct uv"
    using dk by (rule distinct_map [THEN iffD1, THEN conjunct1])
  have sY: "set ?Y = {(a, 5), (b, 3), (c, 9), (d, 1)}"
    by (simp only: set_sort set_rev st)
  have dY: "distinct ?Y"
    using d by (simp only: distinct_sort distinct_rev)
  have inj: "inj_on snd (set ?Y)"
    unfolding sY by (rule inj_abcd)
  have 1: "sorted (map snd ?Y)"
    by (rule sorted_sort_key)
  have 2: "distinct (map snd ?Y)"
    using dY inj by (simp only: distinct_map simp_thms)
  have 3: "set (map snd ?Y) = set [1, 3, 5, 9 :: real]"
    unfolding set_map sY snd_image_abcd by simp
  have m: "map snd ?Y = [1, 3, 5, 9]"
    using 1 2 sorted_1359 [THEN conjunct1] sorted_1359 [THEN conjunct2] 3
    by (rule sorted_distinct_set_unique)
  from map_snd_4 [OF m] obtain y1 y2 y3 y4 where Y: "?Y = [y1, y2, y3, y4]"
    and s: "snd y1 = 1" "snd y2 = 3" "snd y3 = 5" "snd y4 = 9"
    by blast
  have in1: "y1 \<in> {(a, 5), (b, 3), (c, 9), (d, 1)}" and in2: "y2 \<in> {(a, 5), (b, 3), (c, 9), (d, 1)}"
    and in3: "y3 \<in> {(a, 5), (b, 3), (c, 9), (d, 1)}" and in4: "y4 \<in> {(a, 5), (b, 3), (c, 9), (d, 1)}"
    unfolding sY [symmetric] Y by simp_all
  have "y1 = (d, 1)" "y2 = (b, 3)" "y3 = (a, 5)" "y4 = (c, 9)"
    by (rule pick_abcd(1) [OF in1 s(1)], rule pick_abcd(2) [OF in2 s(2)],
        rule pick_abcd(3) [OF in3 s(3)], rule pick_abcd(4) [OF in4 s(4)])
  with Y have "?Y = [(d, 1), (b, 3), (a, 5), (c, 9)]"
    by (simp only:)
  then show ?thesis
    by (simp only: sorted_reverse_def rev.simps append.simps)
qed

lemma OnTimeOut_eq:
  "OnTimeOut s =
     ([EarlyStage (slice_to (filter (\<lambda>(i, v). already_sent s i = None) (sorted_reverse snd (uv_dict s)))
                            (max_num_esr s))], s)"
  by (simp add: OnTimeOut_def Let_def)

lemma timeout_general:
  fixes s :: service
  defines "F \<equiv> filter (\<lambda>(i, v). already_sent s i = None) (sorted_reverse snd (uv_dict s))"
  defines "items \<equiv> slice_to F (max_num_esr s)"
  shows "sorted_wrt (\<lambda>x y. snd y \<le> snd x) items"
    and "set items \<subseteq> {(i, v). (i, v) \<in> set (uv_dict s) \<and> already_sent s i = None}"
    and "\<forall>x \<in> set items. \<forall>y \<in> set (uv_dict s).
           already_sent s (fst y) = None \<and> y \<notin> set items \<longrightarrow> snd y \<le> snd x"
    and "length items =
           (if 0 \<le> max_num_esr s
            then min (nat (max_num_esr s))
                     (length (filter (\<lambda>(i, v). already_sent s i = None) (uv_dict s)))
            else length (filter (\<lambda>(i, v). already_sent s i = None) (uv_dict s)) - nat (- max_num_esr s))"
proof -
  obtain n where n: "items = take n F"
    unfolding items_def using slice_to_take by blast
  have sF: "sorted_wrt (\<lambda>x y. snd y \<le> snd x) F"
    unfolding F_def by (intro sorted_wrt_filter sorted_reverse_desc)
  have setF: "set F = {(i, v). (i, v) \<in> set (uv_dict s) \<and> already_sent s i = None}"
    unfolding F_def by (auto simp: sorted_reverse_set)
  show "sorted_wrt (\<lambda>x y. snd y \<le> snd x) items"
    unfolding n using sF by (rule sorted_wrt_take)
  show "set items \<subseteq> {(i, v). (i, v) \<in> set (uv_dict s) \<and> already_sent s i = None}"
    unfolding n setF [symmetric] by (rule set_take_subset)
  show "\<forall>x \<in> set items. \<forall>y \<in> set (uv_dict s).
           already_sent s (fst y) = None \<and> y \<notin> set items \<longrightarrow> snd y \<le> snd x"
  proof (intro ballI impI)
    fix x y
    assume x: "x \<in> set items" and y: "y \<in> set (uv_dict s)"
      and h: "already_sent s (fst y) = None \<and> y \<notin> set items"
    from y h have "y \<in> set F"
      unfolding setF by (simp add: case_prod_beta)
    with sF x h show "snd y \<le> snd x"
      unfolding n by (intro take_top [of snd F x n y]) simp_all
  qed
  show "length items =
           (if 0 \<le> max_num_esr s
            then min (nat (max_num_esr s))
                     (length (filter (\<lambda>(i, v). already_sent s i = None) (uv_dict s)))
            else length (filter (\<lambda>(i, v). already_sent s i = None) (uv_dict s)) - nat (- max_num_esr s))"
    unfolding items_def slice_to_length F_def length_filter_sorted_reverse ..
qed

lemma sorted_reverse_mset: "mset (sorted_reverse f xs) = mset xs"
  by (simp add: sorted_reverse_def)

lemma sorted_reverse_stable:
  "filter (\<lambda>x. f x = k) (sorted_reverse f xs) = filter (\<lambda>x. f x = k) xs"
proof -
  have "filter (\<lambda>x. f x = k) (sorted_reverse f xs)
      = rev (filter (\<lambda>x. f x = k) (sort_key f (rev xs)))"
    by (simp only: sorted_reverse_def rev_filter)
  also have "\<dots> = rev (filter (\<lambda>x. f x = k) (rev xs))"
    by (simp only: sort_key_stable)
  also have "\<dots> = filter (\<lambda>x. f x = k) xs"
    by (simp only: rev_filter rev_rev_ident)
  finally show ?thesis .
qed

lemma sorted_reverse_neg:
  fixes f :: "'a \<Rightarrow> real"
  shows "sorted_reverse f xs = sort_key (\<lambda>x. - f x) xs"
proof (rule sym, rule properties_for_sort_key)
  show "mset (sorted_reverse f xs) = mset xs"
    by (rule sorted_reverse_mset)
  show "filter (\<lambda>x. - f k = - f x) (sorted_reverse f xs) = filter (\<lambda>x. - f k = - f x) xs" for k
    using sorted_reverse_stable [of f "f k" xs] by (simp add: eq_commute)
  have "sorted_wrt (\<lambda>x y. f y \<le> f x) (sorted_reverse f xs)"
    by (rule sorted_reverse_desc)
  then show "sorted (map (\<lambda>x. - f x) (sorted_reverse f xs))"
    by (simp add: sorted_map)
qed

lemma spec_timeout_selection_eq:
  "0 \<le> max_num_esr s \<Longrightarrow>
     slice_to (filter (\<lambda>(i, v). already_sent s i = None) (sorted_reverse snd (uv_dict s)))
       (max_num_esr s) = spec_timeout_selection s"
  unfolding spec_timeout_selection_def slice_to_def sorted_reverse_neg case_prod_unfold
  by simp

lemma mset_take_subseteq: "mset (take n xs) \<subseteq># mset xs"
proof -
  have "mset xs = mset (take n xs) + mset (drop n xs)"
    by (simp only: mset_append [symmetric] append_take_drop_id)
  then show ?thesis
    by (simp only: mset_subset_eq_add_left)
qed

lemma slice_to_mset: "mset (slice_to xs k) \<subseteq># mset xs"
  by (simp add: slice_to_def mset_take_subseteq)

lemma timeout_items_mset:
  "mset (slice_to (filter P (sorted_reverse f xs)) k) \<subseteq># mset (filter P xs)"
proof -
  have "mset (filter P (sorted_reverse f xs)) = mset (filter P xs)"
    by (simp only: mset_filter sorted_reverse_mset)
  then show ?thesis
    using slice_to_mset [of "filter P (sorted_reverse f xs)" k] by (simp only:)
qed

lemma distinct_mset_mono: "mset ys \<subseteq># mset xs \<Longrightarrow> distinct xs \<Longrightarrow> distinct ys"
proof -
  assume sub: "mset ys \<subseteq># mset xs" and d: "distinct xs"
  have "count (mset ys) a \<le> 1" for a
  proof -
    have "count (mset ys) a \<le> count (mset xs) a"
      using sub by (rule mset_subset_eq_count)
    also have "\<dots> \<le> 1"
      using d by (simp add: distinct_count_atmost_1)
    finally show ?thesis .
  qed
  then have le: "count (mset ys) a \<le> 1" for a .
  show "distinct ys"
    unfolding distinct_count_atmost_1
  proof (intro allI)
    fix a
    show "count (mset ys) a = (if a \<in> set ys then 1 else 0)"
    proof (cases "a \<in> set ys")
      case True
      then have "count (mset ys) a \<noteq> 0"
        by (simp only: count_mset_0_iff not_not)
      with le [of a] have "count (mset ys) a = 1"
        by linarith
      with True show ?thesis
        by (simp only: if_True)
    next
      case False
      then show ?thesis
        by (simp add: count_mset_0_iff)
    qed
  qed
qed

lemma timeout_items_distinct:
  assumes "distinct (map fst xs)"
  shows "distinct (map fst (slice_to (filter P (sorted_reverse f xs)) k))"
proof -
  have "image_mset fst (mset (slice_to (filter P (sorted_reverse f xs)) k))
      \<subseteq># image_mset fst (mset (filter P xs))"
    using timeout_items_mset [of P f xs k] by (rule image_mset_subseteq_mono)
  then have "mset (map fst (slice_to (filter P (sorted_reverse f xs)) k)) \<subseteq># mset (map fst (filter P xs))"
    by (simp only: mset_map)
  moreover have "distinct (map fst (filter P xs))"
    using assms by (rule distinct_map_filter)
  ultimately show ?thesis
    by (rule distinct_mset_mono)
qed

text \<open>
  C5. \<^verbatim>\<open>OnTimeOut\<close> dispatches one list to the early stage ranker and returns the
  state as it was. The list is the estimate store sorted by estimate in descending
  order, without the entries of sent items, cut by the slice \<^verbatim>\<open>[: max_num_esr]\<close>; for
  a \<^verbatim>\<open>max_num_esr\<close> that is not negative this is the selection in the words of the
  specification. So every entry of the list is an unsent entry of the store, taken no
  more often than the store holds it, and no item is in the list twice; the list is in
  descending order of the estimates; every unsent entry that it leaves out has an
  estimate no greater than any that it keeps; and it has \<^verbatim>\<open>max_num_esr\<close> entries, or
  all unsent entries when there are fewer (a negative \<^verbatim>\<open>max_num_esr\<close> cuts that many
  entries off the end, as a Python slice does). With the stored estimates a:5, b:3, c:9,
  d:1, in whatever order they were inserted, and \<^verbatim>\<open>max_num_esr\<close> 2 it dispatches
  (c, 9), (a, 5) when nothing is sent and (c, 9), (b, 3) when only a is sent.
\<close>

theorem timeout_top_k:
  "(\<exists>items. OnTimeOut s = ([EarlyStage items], s) \<and>
      items = slice_to (filter (\<lambda>(i, v). already_sent s i = None) (sorted_reverse snd (uv_dict s)))
                (max_num_esr s) \<and>
      (0 \<le> max_num_esr s \<longrightarrow> items = spec_timeout_selection s) \<and>
      mset items \<subseteq># mset (filter (\<lambda>(i, v). already_sent s i = None) (uv_dict s)) \<and>
      (distinct (map fst (uv_dict s)) \<longrightarrow> distinct (map fst items)) \<and>
      sorted_wrt (\<lambda>x y. snd y \<le> snd x) items \<and>
      set items \<subseteq> {(i, v). (i, v) \<in> set (uv_dict s) \<and> already_sent s i = None} \<and>
      (\<forall>x \<in> set items. \<forall>y \<in> set (uv_dict s).
          already_sent s (fst y) = None \<and> y \<notin> set items \<longrightarrow> snd y \<le> snd x) \<and>
      length items =
        (if 0 \<le> max_num_esr s
         then min (nat (max_num_esr s))
                  (length (filter (\<lambda>(i, v). already_sent s i = None) (uv_dict s)))
         else length (filter (\<lambda>(i, v). already_sent s i = None) (uv_dict s)) - nat (- max_num_esr s))) \<and>
   (distinct (map fst (uv_dict s)) \<and> set (uv_dict s) = {(a, 5), (b, 3), (c, 9), (d, 1)} \<and>
    max_num_esr s = 2 \<and> already_sent s a = None \<and> already_sent s b = None \<and>
    already_sent s c = None \<and> already_sent s d = None \<longrightarrow>
      fst (OnTimeOut s) = [EarlyStage [(c, 9), (a, 5)]]) \<and>
   (distinct (map fst (uv_dict s)) \<and> set (uv_dict s) = {(a, 5), (b, 3), (c, 9), (d, 1)} \<and>
    max_num_esr s = 2 \<and> already_sent s a \<noteq> None \<and> already_sent s b = None \<and>
    already_sent s c = None \<and> already_sent s d = None \<longrightarrow>
      fst (OnTimeOut s) = [EarlyStage [(c, 9), (b, 3)]])"
proof (intro conjI impI)
  let ?P = "\<lambda>(i, v). already_sent s i = None"
  let ?items = "slice_to (filter ?P (sorted_reverse snd (uv_dict s))) (max_num_esr s)"
  have spec: "0 \<le> max_num_esr s \<longrightarrow> ?items = spec_timeout_selection s"
    by (intro impI spec_timeout_selection_eq)
  have ms: "mset ?items \<subseteq># mset (filter ?P (uv_dict s))"
    by (rule timeout_items_mset)
  have ds: "distinct (map fst (uv_dict s)) \<longrightarrow> distinct (map fst ?items)"
    by (intro impI timeout_items_distinct)
  show "\<exists>items. OnTimeOut s = ([EarlyStage items], s) \<and>
      items = ?items \<and>
      (0 \<le> max_num_esr s \<longrightarrow> items = spec_timeout_selection s) \<and>
      mset items \<subseteq># mset (filter ?P (uv_dict s)) \<and>
      (distinct (map fst (uv_dict s)) \<longrightarrow> distinct (map fst items)) \<and>
      sorted_wrt (\<lambda>x y. snd y \<le> snd x) items \<and>
      set items \<subseteq> {(i, v). (i, v) \<in> set (uv_dict s) \<and> already_sent s i = None} \<and>
      (\<forall>x \<in> set items. \<forall>y \<in> set (uv_dict s).
          already_sent s (fst y) = None \<and> y \<notin> set items \<longrightarrow> snd y \<le> snd x) \<and>
      length items =
        (if 0 \<le> max_num_esr s
         then min (nat (max_num_esr s)) (length (filter ?P (uv_dict s)))
         else length (filter ?P (uv_dict s)) - nat (- max_num_esr s))"
    using OnTimeOut_eq [of s] spec ms ds timeout_general [of s]
    by (intro exI [of _ ?items] conjI refl)
next
  assume h: "distinct (map fst (uv_dict s)) \<and> set (uv_dict s) = {(a, 5), (b, 3), (c, 9), (d, 1)} \<and>
    max_num_esr s = 2 \<and> already_sent s a = None \<and> already_sent s b = None \<and>
    already_sent s c = None \<and> already_sent s d = None"
  then have "sorted_reverse snd (uv_dict s) = [(c, 9), (a, 5), (b, 3), (d, 1)]"
    by (intro sorted_reverse_abcd) simp_all
  with h show "fst (OnTimeOut s) = [EarlyStage [(c, 9), (a, 5)]]"
    by (simp add: OnTimeOut_eq slice_to_def)
next
  assume h: "distinct (map fst (uv_dict s)) \<and> set (uv_dict s) = {(a, 5), (b, 3), (c, 9), (d, 1)} \<and>
    max_num_esr s = 2 \<and> already_sent s a \<noteq> None \<and> already_sent s b = None \<and>
    already_sent s c = None \<and> already_sent s d = None"
  then have "sorted_reverse snd (uv_dict s) = [(c, 9), (a, 5), (b, 3), (d, 1)]"
    by (intro sorted_reverse_abcd) simp_all
  with h show "fst (OnTimeOut s) = [EarlyStage [(c, 9), (b, 3)]]"
    by (auto simp: OnTimeOut_eq slice_to_def)
qed

theorem timeout_top_k_witness:
  "uv_dict (snd (run (init 10 10 2 3 Map.empty)
      [GeneratorCompletion 0
        [\<lparr>item_id = ''a'', rank = 1, score = 3\<rparr>, \<lparr>item_id = ''b'', rank = 1, score = 1\<rparr>,
         \<lparr>item_id = ''c'', rank = 1, score = 7\<rparr>, \<lparr>item_id = ''d'', rank = 1, score = - 1\<rparr>]]))
     = [(''a'', 5), (''b'', 3), (''c'', 9), (''d'', 1)] \<and>
   run (init 10 10 2 3 Map.empty)
      [GeneratorCompletion 0
        [\<lparr>item_id = ''a'', rank = 1, score = 3\<rparr>, \<lparr>item_id = ''b'', rank = 1, score = 1\<rparr>,
         \<lparr>item_id = ''c'', rank = 1, score = 7\<rparr>, \<lparr>item_id = ''d'', rank = 1, score = - 1\<rparr>],
       TimeOut]
     = ([EarlyStage [(''c'', 9), (''a'', 5)]],
        (init 10 10 2 3 Map.empty)\<lparr>uv_dict := [(''a'', 5), (''b'', 3), (''c'', 9), (''d'', 1)]\<rparr>) \<and>
   uv_dict (snd (run (init 1 4 2 1 Map.empty)
      [GeneratorCompletion 0
        [\<lparr>item_id = ''a'', rank = 1, score = 3\<rparr>, \<lparr>item_id = ''b'', rank = 1, score = 1\<rparr>,
         \<lparr>item_id = ''c'', rank = 1, score = 7\<rparr>, \<lparr>item_id = ''d'', rank = 1, score = - 1\<rparr>]]))
     = [(''a'', 5), (''b'', 3), (''c'', 9), (''d'', 1)] \<and>
   already_sent (snd (run (init 1 4 2 1 Map.empty)
      [GeneratorCompletion 0
        [\<lparr>item_id = ''a'', rank = 1, score = 3\<rparr>, \<lparr>item_id = ''b'', rank = 1, score = 1\<rparr>,
         \<lparr>item_id = ''c'', rank = 1, score = 7\<rparr>, \<lparr>item_id = ''d'', rank = 1, score = - 1\<rparr>]])) ''a''
     = Some True \<and>
   fst (run (init 1 4 2 1 Map.empty)
      [GeneratorCompletion 0
        [\<lparr>item_id = ''a'', rank = 1, score = 3\<rparr>, \<lparr>item_id = ''b'', rank = 1, score = 1\<rparr>,
         \<lparr>item_id = ''c'', rank = 1, score = 7\<rparr>, \<lparr>item_id = ''d'', rank = 1, score = - 1\<rparr>],
       TimeOut])
     = [LateStage [''a''], EarlyStage [(''c'', 9), (''b'', 3)]] \<and>
   fst (run (init 10 10 3 3 Map.empty)
      [GeneratorCompletion 0
        [\<lparr>item_id = ''a'', rank = 1, score = 3\<rparr>, \<lparr>item_id = ''b'', rank = 1, score = 1\<rparr>,
         \<lparr>item_id = ''c'', rank = 1, score = 7\<rparr>],
       TimeOut])
     = [EarlyStage [(''c'', 9), (''a'', 5), (''b'', 3)]] \<and>
   spec_timeout_selection (snd (run (init 10 10 3 3 Map.empty)
      [GeneratorCompletion 0
        [\<lparr>item_id = ''a'', rank = 1, score = 3\<rparr>, \<lparr>item_id = ''b'', rank = 1, score = 1\<rparr>,
         \<lparr>item_id = ''c'', rank = 1, score = 7\<rparr>]]))
     = [(''c'', 9), (''a'', 5), (''b'', 3)] \<and>
   fst (run (init 10 10 3 3 Map.empty)
      [GeneratorCompletion 0
        [\<lparr>item_id = ''a'', rank = 1, score = 3\<rparr>, \<lparr>item_id = ''b'', rank = 1, score = 3\<rparr>,
         \<lparr>item_id = ''c'', rank = 1, score = 7\<rparr>, \<lparr>item_id = ''d'', rank = 1, score = 3\<rparr>],
       TimeOut])
     = [EarlyStage [(''c'', 9), (''a'', 5), (''b'', 5)]]"
  using timeout_top_k [of "snd (run (init 10 10 2 3 Map.empty)
      [GeneratorCompletion 0
        [\<lparr>item_id = ''a'', rank = 1, score = 3\<rparr>, \<lparr>item_id = ''b'', rank = 1, score = 1\<rparr>,
         \<lparr>item_id = ''c'', rank = 1, score = 7\<rparr>, \<lparr>item_id = ''d'', rank = 1, score = - 1\<rparr>]])"
      "''a''" "''b''" "''c''" "''d''"]
    timeout_top_k [of "snd (run (init 1 4 2 1 Map.empty)
      [GeneratorCompletion 0
        [\<lparr>item_id = ''a'', rank = 1, score = 3\<rparr>, \<lparr>item_id = ''b'', rank = 1, score = 1\<rparr>,
         \<lparr>item_id = ''c'', rank = 1, score = 7\<rparr>, \<lparr>item_id = ''d'', rank = 1, score = - 1\<rparr>]])"
      "''a''" "''b''" "''c''" "''d''"]
    timeout_top_k [of "snd (run (init 10 10 3 3 Map.empty)
      [GeneratorCompletion 0
        [\<lparr>item_id = ''a'', rank = 1, score = 3\<rparr>, \<lparr>item_id = ''b'', rank = 1, score = 1\<rparr>,
         \<lparr>item_id = ''c'', rank = 1, score = 7\<rparr>]])"
      "''a''" "''b''" "''c''" "''d''"]
  by (simp add: eval_defs send_loop_eq spec_timeout_selection_def)

end
